theory Spec2Isabelle
  imports Complex_Main "HOL-Library.Word"
begin

section \<open>Conventions of the embedding\<close>

text \<open>
  The development embeds \<^verbatim>\<open>src/lib/pdf-text-editor.ts\<close>.

  \<^item> A JavaScript \<^verbatim>\<open>number\<close> that carries a coordinate or a size is a \<^typ>\<open>real\<close>:
    the arithmetic of the source is read over the reals, rounding and NaN are not modelled.
    A page index is an \<^typ>\<open>int\<close>.
  \<^item> A JavaScript string is a \<^typ>\<open>string\<close>. The model covers ASCII text: the white space
    of \<^verbatim>\<open>\s\<close> and \<^verbatim>\<open>trim\<close> is TAB, LF, VT, FF, CR and SPACE, and \<^verbatim>\<open>toLowerCase\<close>
    maps \<^verbatim>\<open>A-Z\<close> to \<^verbatim>\<open>a-z\<close>; every other character is left alone.
  \<^item> An exception is a value: a function of the source that can throw returns
    \<open>error + 'a\<close>, with \<open>Inl\<close> for the exception.
  \<^item> The collaborators that are not part of the repository (the pdf-lib parser, font and
    serialiser) are parameters of the functions that call them.
\<close>

section \<open>Strings\<close>

definition isWhiteSpace :: "char \<Rightarrow> bool" where
  "isWhiteSpace c =
     (c \<in> set [CHR 0x09, CHR 0x0A, CHR 0x0B, CHR 0x0C, CHR 0x0D, CHR '' ''])"

text \<open>\<^verbatim>\<open>s.trim()\<close>: white space is removed at both ends.\<close>

definition trim :: "string \<Rightarrow> string" where
  "trim s = rev (dropWhile isWhiteSpace (rev (dropWhile isWhiteSpace s)))"

text \<open>\<^verbatim>\<open>s.replace(/\s+/g, " ")\<close>: every maximal run of white space becomes one space.\<close>

function collapseWhiteSpace :: "string \<Rightarrow> string" where
  "collapseWhiteSpace [] = []"
| "collapseWhiteSpace (c # s) =
     (if isWhiteSpace c then CHR '' '' # collapseWhiteSpace (dropWhile isWhiteSpace s)
      else c # collapseWhiteSpace s)"
  by pat_completeness auto
termination
  by (relation "measure length") (auto simp: le_imp_less_Suc length_dropWhile_le)

definition toLowerChar :: "char \<Rightarrow> char" where
  "toLowerChar c =
     (case map_of (zip ''ABCDEFGHIJKLMNOPQRSTUVWXYZ'' ''abcdefghijklmnopqrstuvwxyz'') c of
        Some l \<Rightarrow> l
      | None \<Rightarrow> c)"

definition toLowerCase :: "string \<Rightarrow> string" where
  "toLowerCase s = map toLowerChar s"

text \<open>
  \<^verbatim>\<open>s.includes(t)\<close>: \<open>t\<close> occurs in \<open>s\<close> as a contiguous run of characters, at some
  start position.
\<close>

fun stringIncludes :: "string \<Rightarrow> string \<Rightarrow> bool" where
  "stringIncludes [] t = (t = [])"
| "stringIncludes (c # s) t = (take (length t) (c # s) = t \<or> stringIncludes s t)"

text \<open>
  \<^verbatim>\<open>s.split(/\s+/)\<close>: the pieces of \<open>s\<close> between the maximal runs of white space. A
  run at the start or at the end of \<open>s\<close> leaves an empty piece there, and the empty string
  splits into one empty piece. The first argument holds the piece being read, reversed.
\<close>

function splitWhiteSpaceFrom :: "string \<Rightarrow> string \<Rightarrow> string list" where
  "splitWhiteSpaceFrom cur [] = [rev cur]"
| "splitWhiteSpaceFrom cur (c # s) =
     (if isWhiteSpace c then rev cur # splitWhiteSpaceFrom [] (dropWhile isWhiteSpace s)
      else splitWhiteSpaceFrom (c # cur) s)"
  by pat_completeness auto
termination
  by (relation "measure (\<lambda>(cur, s). length s)")
    (auto simp: le_imp_less_Suc length_dropWhile_le)

definition splitWhiteSpace :: "string \<Rightarrow> string list" where
  "splitWhiteSpace s = splitWhiteSpaceFrom [] s"

text \<open>\<^verbatim>\<open>s.split(d)\<close> for a separator \<open>d\<close> of one character.\<close>

fun splitCharFrom :: "char \<Rightarrow> string \<Rightarrow> string \<Rightarrow> string list" where
  "splitCharFrom d cur [] = [rev cur]"
| "splitCharFrom d cur (c # s) =
     (if c = d then rev cur # splitCharFrom d [] s else splitCharFrom d (c # cur) s)"

definition splitChar :: "char \<Rightarrow> string \<Rightarrow> string list" where
  "splitChar d s = splitCharFrom d [] s"

text \<open>
  \<^verbatim>\<open>new Set(iterable)\<close>, as the list of its members in insertion order: the first
  occurrence of a value is kept. \<^verbatim>\<open>size\<close> is the length of that list, \<^verbatim>\<open>has\<close> is
  membership.
\<close>

definition newSet :: "'a list \<Rightarrow> 'a list" where
  "newSet vs = rev (remdups (rev vs))"

section \<open>Similarity matcher\<close>

text \<open>The local function \<^verbatim>\<open>normalize\<close> of \<^verbatim>\<open>fuzzyTextMatch\<close>.\<close>

definition normalize :: "string \<Rightarrow> string" where
  "normalize s = toLowerCase (collapseWhiteSpace (trim s))"

definition calculateSimilarity :: "string \<Rightarrow> string \<Rightarrow> real" where
  "calculateSimilarity s1 s2 =
     (if s1 = s2 then 1
      else if length s1 = 0 \<or> length s2 = 0 then 0
      else
        let words1 = newSet (splitWhiteSpace s1);
            words2 = newSet (splitWhiteSpace s2);
            intersection = newSet (filter (\<lambda>w. w \<in> set words2) words1);
            union = newSet (words1 @ words2)
        in real (length intersection) / real (length union))"

definition fuzzyTextMatch :: "string \<Rightarrow> string \<Rightarrow> bool" where
  "fuzzyTextMatch text1 text2 =
     (let normalizedText1 = normalize text1;
          normalizedText2 = normalize text2
      in stringIncludes normalizedText1 normalizedText2 \<or>
         stringIncludes normalizedText2 normalizedText1 \<or>
         calculateSimilarity normalizedText1 normalizedText2 > 0.7)"

subsection \<open>The matcher as the specification words it\<close>

text \<open>
  The definitions of this subsection use none of the definitions above. White space and
  lower case are given by the codes of the characters: the codes 9 to 13 and 32 are white
  space, and the codes 65 to 90, the letters \<^verbatim>\<open>A-Z\<close>, go to the codes 32 above.
\<close>

definition spaceSpec :: "char \<Rightarrow> bool" where
  "spaceSpec c =
     ((9 \<le> (of_char c :: nat) \<and> (of_char c :: nat) \<le> 13) \<or> (of_char c :: nat) = 32)"

definition lowerSpec :: "char \<Rightarrow> char" where
  "lowerSpec c =
     (if 65 \<le> (of_char c :: nat) \<and> (of_char c :: nat) \<le> 90
      then char_of ((of_char c :: nat) + 32) else c)"

text \<open>
  The words of a string: its maximal runs of characters that are not white space, from
  left to right.
\<close>

function wordsSpec :: "string \<Rightarrow> string list" where
  "wordsSpec s =
     (if dropWhile spaceSpec s = [] then []
      else takeWhile (\<lambda>c. \<not> spaceSpec c) (dropWhile spaceSpec s)
           # wordsSpec (dropWhile (\<lambda>c. \<not> spaceSpec c) (dropWhile spaceSpec s)))"
  by pat_completeness auto
termination
proof (relation "measure length")
  show "wf (measure length)" by simp
next
  fix s :: string
  assume ne: "dropWhile spaceSpec s \<noteq> []"
  then obtain c r where r: "dropWhile spaceSpec s = c # r"
    by (cases "dropWhile spaceSpec s") auto
  from hd_dropWhile [OF ne] r have "\<not> spaceSpec c" by simp
  then have "length (dropWhile (\<lambda>c. \<not> spaceSpec c) (c # r)) \<le> length r"
    by (simp add: length_dropWhile_le)
  moreover have "length (c # r) \<le> length s"
    unfolding r [symmetric] by (rule length_dropWhile_le)
  ultimately show "(dropWhile (\<lambda>c. \<not> spaceSpec c) (dropWhile spaceSpec s), s) \<in> measure length"
    by (simp add: r)
qed

declare wordsSpec.simps [simp del]

text \<open>The words with one space between each two of them.\<close>

fun unwordsSpec :: "string list \<Rightarrow> string" where
  "unwordsSpec [] = []"
| "unwordsSpec [w] = w"
| "unwordsSpec (w # v # ws) = w @ CHR '' '' # unwordsSpec (v # ws)"

text \<open>
  The normalised string: trimmed, every run of white space inside it collapsed to one
  space, in lower case. That is the words of the string, each in lower case, with one
  space between each two of them.
\<close>

definition lowerWordsSpec :: "string \<Rightarrow> string list" where
  "lowerWordsSpec s = map (map lowerSpec) (wordsSpec s)"

definition normalizeSpec :: "string \<Rightarrow> string" where
  "normalizeSpec s = unwordsSpec (lowerWordsSpec s)"

text \<open>
  The similarity of two strings: 1 when their normalised strings are equal, 0 when one of
  them is empty, and otherwise the Jaccard similarity of the two sets of words of the
  normalised strings.
\<close>

definition jaccardSpec :: "string \<Rightarrow> string \<Rightarrow> real" where
  "jaccardSpec a b =
     (if normalizeSpec a = normalizeSpec b then 1
      else if normalizeSpec a = [] \<or> normalizeSpec b = [] then 0
      else real (card (set (lowerWordsSpec a) \<inter> set (lowerWordsSpec b))) /
           real (card (set (lowerWordsSpec a) \<union> set (lowerWordsSpec b))))"

definition containsSpec :: "string \<Rightarrow> string \<Rightarrow> bool" where
  "containsSpec s t = (\<exists>before after. s = before @ t @ after)"

text \<open>
  The match: one normalised string contains the other, or the similarity is above 0.70.
\<close>

definition fuzzyMatchSpec :: "string \<Rightarrow> string \<Rightarrow> bool" where
  "fuzzyMatchSpec a b =
     (containsSpec (normalizeSpec a) (normalizeSpec b) \<or>
      containsSpec (normalizeSpec b) (normalizeSpec a) \<or>
      jaccardSpec a b > 7 / 10)"

section \<open>Data model\<close>

text \<open>
  The interfaces \<^verbatim>\<open>TextItem\<close>, \<^verbatim>\<open>TextBlock\<close> and \<^verbatim>\<open>PdfTextMap\<close>. The fields
  that several of them share are declared once: a page size is a \<open>width\<close> and a
  \<open>height\<close>, a box adds \<open>x\<close> and \<open>y\<close>, the position of an item adds the optional
  \<open>fontSize\<close> and \<open>fontName\<close>; an item and a block both have \<open>text\<close>, \<open>position\<close>
  and \<open>pageIndex\<close>.
\<close>

record Size =
  width :: real
  height :: real

record Box = Size +
  x :: real
  y :: real

record ItemPosition = Box +
  fontSize :: "real option"
  fontName :: "string option"

record 'p Positioned =
  "text" :: string
  position :: 'p
  pageIndex :: int

type_synonym TextItem = "ItemPosition Positioned"

record TextBlock = "Box Positioned" +
  items :: "TextItem list"
  isModified :: bool
  originalText :: "string option"

record PdfTextMap =
  blocks :: "TextBlock list"
  pages :: "Size list"

text \<open>A thrown \<^verbatim>\<open>Error\<close>, with its message.\<close>

datatype error = Error string

section \<open>Block builder\<close>

text \<open>\<^verbatim>\<open>strs.join(sep)\<close>.\<close>

fun joinWith :: "string \<Rightarrow> string list \<Rightarrow> string" where
  "joinWith sep [] = []"
| "joinWith sep [s] = s"
| "joinWith sep (s # t # ss) = s @ sep @ joinWith sep (t # ss)"

text \<open>
  One round of the loop of \<^verbatim>\<open>createBlockFromItems\<close> over the four bounds
  \<^verbatim>\<open>(minX, minY, maxX, maxY)\<close>.
\<close>

definition boundsStep :: "real \<times> real \<times> real \<times> real \<Rightarrow> TextItem \<Rightarrow> real \<times> real \<times> real \<times> real" where
  "boundsStep = (\<lambda>(minX, minY, maxX, maxY) item.
     (min minX (x (position item)),
      min minY (y (position item)),
      max maxX (x (position item) + width (position item)),
      max maxY (y (position item) + height (position item))))"

text \<open>
  The source starts the bounds at \<^verbatim>\<open>Infinity\<close> and \<^verbatim>\<open>-Infinity\<close>, and the list has a
  first item when the loop is reached: after the round of the first item the bounds are
  those of that item, which is where the model starts the remaining rounds.
\<close>

definition createBlockFromItems :: "TextItem list \<Rightarrow> error + TextBlock" where
  "createBlockFromItems its =
     (case its of
        [] \<Rightarrow> Inl (Error ''Cannot create block from empty items array'')
      | first # rest \<Rightarrow>
          (case foldl boundsStep
                  (x (position first), y (position first),
                   x (position first) + width (position first),
                   y (position first) + height (position first)) rest of
             (minX, minY, maxX, maxY) \<Rightarrow>
               Inr \<lparr> text = joinWith '' '' (map text its),
                     position = \<lparr> width = maxX - minX, height = maxY - minY, x = minX, y = minY \<rparr>,
                     pageIndex = pageIndex first,
                     items = its,
                     isModified = False,
                     originalText = None \<rparr>))"

text \<open>The comparator given to \<^verbatim>\<open>sort\<close>.\<close>

definition compareItems :: "TextItem \<Rightarrow> TextItem \<Rightarrow> real" where
  "compareItems a b =
     (if pageIndex a \<noteq> pageIndex b then real_of_int (pageIndex a - pageIndex b)
      else
        let yThreshold = max (height (position a)) (height (position b)) * 0.5
        in if \<bar>y (position a) - y (position b)\<bar> > yThreshold
           then y (position b) - y (position a)
           else x (position a) - x (position b))"

text \<open>
  \<^verbatim>\<open>[...vs].sort(cmp)\<close>. The sort of ECMAScript is stable, and it fixes the result only
  for a comparator that is a consistent ordering of the elements; the band of tolerance
  makes \<open>compareItems\<close> inconsistent on some inputs, where the result depends on the
  engine. The model is the stable insertion sort: each element, in the order of the input,
  goes before the first element of the sorted prefix that it is less than.
\<close>

fun insertSorted :: "('a \<Rightarrow> 'a \<Rightarrow> real) \<Rightarrow> 'a \<Rightarrow> 'a list \<Rightarrow> 'a list" where
  "insertSorted cmp v [] = [v]"
| "insertSorted cmp v (w # ws) =
     (if cmp v w < 0 then v # w # ws else w # insertSorted cmp v ws)"

definition sortWith :: "('a \<Rightarrow> 'a \<Rightarrow> real) \<Rightarrow> 'a list \<Rightarrow> 'a list" where
  "sortWith cmp vs = foldl (\<lambda>sorted v. insertSorted cmp v sorted) [] vs"

text \<open>
  The variables of the loop of \<^verbatim>\<open>groupTextIntoBlocks\<close>; \<open>groupedBlocks\<close> is the
  local array \<^verbatim>\<open>blocks\<close>.
\<close>

record GroupState =
  groupedBlocks :: "TextBlock list"
  currentBlock :: "TextItem list"
  currentPageIndex :: int
  lastY :: real
  lastRight :: real

text \<open>The body of the loop, for one item.\<close>

definition groupStep :: "GroupState \<Rightarrow> TextItem \<Rightarrow> error + GroupState" where
  "groupStep st item =
     (let right = x (position item) + width (position item);
          isNewPage = (pageIndex item \<noteq> currentPageIndex st);
          isNewLine = (\<bar>y (position item) - lastY st\<bar> > height (position item) * 0.5);
          isGap = (x (position item) > lastRight st + width (position item) * 0.5);
          closed =
            (if length (currentBlock st) > 0 \<and> (isNewPage \<or> isNewLine \<or> isGap)
             then (case createBlockFromItems (currentBlock st) of
                     Inl e \<Rightarrow> Inl e
                   | Inr block \<Rightarrow>
                       Inr (st\<lparr> groupedBlocks := groupedBlocks st @ [block], currentBlock := [] \<rparr>))
             else Inr st)
      in case closed of
           Inl e \<Rightarrow> Inl e
         | Inr st' \<Rightarrow>
             Inr (st'\<lparr> currentBlock := currentBlock st' @ [item],
                       currentPageIndex := pageIndex item,
                       lastY := y (position item),
                       lastRight := right \<rparr>))"

fun groupLoop :: "GroupState \<Rightarrow> TextItem list \<Rightarrow> error + GroupState" where
  "groupLoop st [] = Inr st"
| "groupLoop st (item # rest) =
     (case groupStep st item of Inl e \<Rightarrow> Inl e | Inr st' \<Rightarrow> groupLoop st' rest)"

definition groupTextIntoBlocks :: "TextItem list \<Rightarrow> error + TextBlock list" where
  "groupTextIntoBlocks textItems =
     (let sortedItems = sortWith compareItems textItems
      in case groupLoop \<lparr> groupedBlocks = [], currentBlock = [], currentPageIndex = -1,
                          lastY = -1, lastRight = -1 \<rparr> sortedItems of
           Inl e \<Rightarrow> Inl e
         | Inr st \<Rightarrow>
             if length (currentBlock st) > 0
             then (case createBlockFromItems (currentBlock st) of
                     Inl e \<Rightarrow> Inl e
                   | Inr block \<Rightarrow> Inr (groupedBlocks st @ [block]))
             else Inr (groupedBlocks st))"

section \<open>Block locator\<close>

text \<open>The predicate of the second \<^verbatim>\<open>filter\<close> of \<^verbatim>\<open>findTextBlockToReplace\<close>.\<close>

definition overlapsRegion :: "Box \<Rightarrow> TextBlock \<Rightarrow> bool" where
  "overlapsRegion region block =
     (let overlapX =
            max 0 (min (x (position block) + width (position block)) (x region + width region)
                   - max (x (position block)) (x region));
          overlapY =
            max 0 (min (y (position block) + height (position block)) (y region + height region)
                   - max (y (position block)) (y region))
      in overlapX > 0 \<and> overlapY > 0)"

text \<open>The loop over the overlapping blocks: it returns at the first block that matches.\<close>

fun firstFuzzyMatch :: "string \<Rightarrow> TextBlock list \<Rightarrow> TextBlock option" where
  "firstFuzzyMatch originalText' [] = None"
| "firstFuzzyMatch originalText' (block # rest) =
     (if fuzzyTextMatch (text block) originalText' then Some block
      else firstFuzzyMatch originalText' rest)"

text \<open>\<^verbatim>\<open>null\<close> is \<open>None\<close>.\<close>

definition findTextBlockToReplace ::
  "PdfTextMap \<Rightarrow> string \<Rightarrow> Box \<Rightarrow> int \<Rightarrow> TextBlock option" where
  "findTextBlockToReplace textMap originalText' region pageIndex' =
     (let pageBlocks = filter (\<lambda>block. pageIndex block = pageIndex') (blocks textMap);
          overlappingBlocks = filter (overlapsRegion region) pageBlocks
      in if length overlappingBlocks = 0 then None
         else (case firstFuzzyMatch originalText' overlappingBlocks of
                 Some block \<Rightarrow> Some block
               | None \<Rightarrow> Some (overlappingBlocks ! 0)))"

section \<open>Text map update\<close>

text \<open>
  \<^verbatim>\<open>replaceTextInBlock\<close> copies two arrays and writes into one of them, and what it
  promises is about the arrays of its argument. Arrays are therefore objects of a heap,
  named by references; a \<^verbatim>\<open>PdfTextMap\<close> object is the pair of the references of its two
  arrays. A block is never written after its creation and stays a value. The heap also
  keeps what \<^verbatim>\<open>console.error\<close> printed.
\<close>

type_synonym ref = nat

record Heap =
  blockArrays :: "ref \<Rightarrow> TextBlock list"
  pageArrays :: "ref \<Rightarrow> Size list"
  nextRef :: ref
  consoleErrors :: "string list"

record PdfTextMapObject =
  blocksRef :: ref
  pagesRef :: ref

text \<open>The value that a map object holds in a heap.\<close>

definition readMap :: "Heap \<Rightarrow> PdfTextMapObject \<Rightarrow> PdfTextMap" where
  "readMap h m = \<lparr> blocks = blockArrays h (blocksRef m), pages = pageArrays h (pagesRef m) \<rparr>"

text \<open>\<^verbatim>\<open>[...array]\<close>: a new array with the same elements.\<close>

definition copyBlockArray :: "Heap \<Rightarrow> ref \<Rightarrow> Heap \<times> ref" where
  "copyBlockArray h r =
     (h\<lparr> blockArrays := (blockArrays h)(nextRef h := blockArrays h r),
         nextRef := Suc (nextRef h) \<rparr>,
      nextRef h)"

definition copyPageArray :: "Heap \<Rightarrow> ref \<Rightarrow> Heap \<times> ref" where
  "copyPageArray h r =
     (h\<lparr> pageArrays := (pageArrays h)(nextRef h := pageArrays h r),
         nextRef := Suc (nextRef h) \<rparr>,
      nextRef h)"

text \<open>\<^verbatim>\<open>array.findIndex(p)\<close>: the first index whose element satisfies \<open>p\<close>, or \<open>-1\<close>.\<close>

fun findIndexFrom :: "int \<Rightarrow> ('a \<Rightarrow> bool) \<Rightarrow> 'a list \<Rightarrow> int" where
  "findIndexFrom i p [] = -1"
| "findIndexFrom i p (v # vs) = (if p v then i else findIndexFrom (i + 1) p vs)"

definition findIndex :: "('a \<Rightarrow> bool) \<Rightarrow> 'a list \<Rightarrow> int" where
  "findIndex p vs = findIndexFrom 0 p vs"

definition replaceTextInBlock ::
  "Heap \<Rightarrow> PdfTextMapObject \<Rightarrow> TextBlock \<Rightarrow> string \<Rightarrow> Heap \<times> PdfTextMapObject" where
  "replaceTextInBlock h textMap blockToReplace newText =
     (case copyBlockArray h (blocksRef textMap) of
        (h1, blocksCopy) \<Rightarrow>
     (case copyPageArray h1 (pagesRef textMap) of
        (h2, pagesCopy) \<Rightarrow>
          let updatedMap = \<lparr> blocksRef = blocksCopy, pagesRef = pagesCopy \<rparr>;
              blockIndex =
                findIndex
                  (\<lambda>block. pageIndex block = pageIndex blockToReplace \<and>
                           x (position block) = x (position blockToReplace) \<and>
                           y (position block) = y (position blockToReplace))
                  (blockArrays h2 (blocksRef updatedMap))
          in if blockIndex = -1
             then (h2\<lparr> consoleErrors := consoleErrors h2 @ [''Block not found in text map''] \<rparr>,
                   textMap)
             else
               let updatedBlock =
                     blockToReplace\<lparr> text := newText,
                                     originalText := Some (text blockToReplace),
                                     isModified := True \<rparr>
               in (h2\<lparr> blockArrays :=
                          (blockArrays h2)
                            (blocksRef updatedMap :=
                               (blockArrays h2 (blocksRef updatedMap))
                                 [nat blockIndex := updatedBlock]) \<rparr>,
                   updatedMap)))"

section \<open>Re-flow renderer\<close>

text \<open>
  What pdf-lib is asked to draw on a page. The coordinates are those of the page space of
  pdf-lib, the user space of PDF: the origin is the bottom left corner of the page and
  \<open>y\<close> grows towards the top, which is why the caller of \<^verbatim>\<open>drawTextWithWrapping\<close>
  subtracts from the page height (\<^verbatim>\<open>// Convert to PDF coordinates\<close>). A page is the
  list of the operations drawn on it, the oldest first.
\<close>

datatype Color = Rgb real real real

datatype DrawOp =
  DrawRectangle Box Color real
| DrawText string real real real

text \<open>The font: \<^verbatim>\<open>font.widthOfTextAtSize(text, size)\<close>.\<close>

type_synonym PDFFont = "string \<Rightarrow> real \<Rightarrow> real"

text \<open>
  The variables of \<^verbatim>\<open>drawTextWithWrapping\<close> that its loops change: the page, the
  \<^verbatim>\<open>line\<close> being filled and \<^verbatim>\<open>yOffset\<close>.
\<close>

record WrapState =
  page :: "DrawOp list"
  line :: string
  yOffset :: real

text \<open>The body of the loop over the words of a paragraph.\<close>

definition wordStep ::
  "PDFFont \<Rightarrow> real \<Rightarrow> real \<Rightarrow> real \<Rightarrow> real \<Rightarrow> WrapState \<Rightarrow> string \<Rightarrow> WrapState" where
  "wordStep font x0 y0 maxWidth fontSize' st word =
     (let lineHeight = fontSize' * 1.2;
          testLine = line st @ (if line st \<noteq> [] then '' '' else []) @ word;
          testWidth = font testLine fontSize'
      in if testWidth > maxWidth \<and> line st \<noteq> []
         then st\<lparr> page := page st @ [DrawText (line st) x0 (y0 + yOffset st) fontSize'],
                  line := word,
                  yOffset := yOffset st + lineHeight \<rparr>
         else st\<lparr> line := testLine \<rparr>)"

text \<open>The body of the loop over the paragraphs.\<close>

definition paragraphStep ::
  "PDFFont \<Rightarrow> real \<Rightarrow> real \<Rightarrow> real \<Rightarrow> real \<Rightarrow> WrapState \<Rightarrow> string \<Rightarrow> WrapState" where
  "paragraphStep font x0 y0 maxWidth fontSize' st paragraph =
     (let lineHeight = fontSize' * 1.2
      in if trim paragraph = [] then st\<lparr> yOffset := yOffset st + lineHeight \<rparr>
         else
           let words = splitChar (CHR '' '') paragraph;
               st' = foldl (wordStep font x0 y0 maxWidth fontSize') (st\<lparr> line := [] \<rparr>) words
           in if line st' \<noteq> []
              then st'\<lparr> page := page st' @ [DrawText (line st') x0 (y0 + yOffset st') fontSize'],
                        yOffset := yOffset st' + lineHeight * 1.5 \<rparr>
              else st')"

text \<open>
  \<^verbatim>\<open>drawTextWithWrapping\<close>, as the state after its last paragraph, and as the page it
  leaves.
\<close>

definition wrapText ::
  "DrawOp list \<Rightarrow> string \<Rightarrow> real \<Rightarrow> real \<Rightarrow> real \<Rightarrow> PDFFont \<Rightarrow> real \<Rightarrow> WrapState" where
  "wrapText pg txt x0 y0 maxWidth font fontSize' =
     foldl (paragraphStep font x0 y0 maxWidth fontSize')
       \<lparr> page = pg, line = [], yOffset = 0 \<rparr>
       (splitChar (CHR 0x0A) txt)"

definition drawTextWithWrapping ::
  "DrawOp list \<Rightarrow> string \<Rightarrow> real \<Rightarrow> real \<Rightarrow> real \<Rightarrow> PDFFont \<Rightarrow> real \<Rightarrow> DrawOp list" where
  "drawTextWithWrapping pg txt x0 y0 maxWidth font fontSize' =
     page (wrapText pg txt x0 y0 maxWidth font fontSize')"

text \<open>
  The body of the loop of \<^verbatim>\<open>regeneratePdfWithModifiedText\<close> over the modified blocks
  of a page of height \<open>pageHeight\<close>.
\<close>

definition applyBlock :: "PDFFont \<Rightarrow> real \<Rightarrow> DrawOp list \<Rightarrow> TextBlock \<Rightarrow> DrawOp list" where
  "applyBlock helveticaFont pageHeight pg block =
     (let covered =
            pg @ [DrawRectangle
                    \<lparr> width = width (position block),
                      height = height (position block),
                      x = x (position block),
                      y = pageHeight - y (position block) - height (position block) \<rparr>
                    (Rgb 1 1 1) 1.0]
      in drawTextWithWrapping covered (text block)
           (x (position block))
           (pageHeight - y (position block) - height (position block))
           (width (position block)) helveticaFont 10)"

text \<open>The body of the loop over the pages, for the page \<open>pg\<close> at index \<open>pageIndex'\<close>.\<close>

definition applyPage ::
  "PDFFont \<Rightarrow> PdfTextMap \<Rightarrow> int \<Rightarrow> Size \<times> DrawOp list \<Rightarrow> Size \<times> DrawOp list" where
  "applyPage helveticaFont textMap pageIndex' pg =
     (let modifiedBlocks =
            filter (\<lambda>block. pageIndex block = pageIndex' \<and> isModified block) (blocks textMap)
      in (fst pg, foldl (applyBlock helveticaFont (height (fst pg))) (snd pg) modifiedBlocks))"

text \<open>
  The loop over the pages. A page of the document is its size and the operations drawn on
  it.
\<close>

fun applyPagesFrom ::
  "PDFFont \<Rightarrow> PdfTextMap \<Rightarrow> int \<Rightarrow> (Size \<times> DrawOp list) list \<Rightarrow> (Size \<times> DrawOp list) list" where
  "applyPagesFrom helveticaFont textMap pageIndex' [] = []"
| "applyPagesFrom helveticaFont textMap pageIndex' (pg # rest) =
     applyPage helveticaFont textMap pageIndex' pg
       # applyPagesFrom helveticaFont textMap (pageIndex' + 1) rest"

definition applyModifiedBlocks ::
  "PDFFont \<Rightarrow> PdfTextMap \<Rightarrow> (Size \<times> DrawOp list) list \<Rightarrow> (Size \<times> DrawOp list) list" where
  "applyModifiedBlocks helveticaFont textMap pgs = applyPagesFrom helveticaFont textMap 0 pgs"

subsection \<open>Array buffers\<close>

text \<open>
  An \<^verbatim>\<open>ArrayBuffer\<close> is an object: it has an identity, and a collaborator that is given
  it can write to it or detach it. The store maps the reference of a buffer to its
  content. A \<^verbatim>\<open>Uint8Array\<close> is a view: it holds the reference of the buffer it reads.
\<close>

datatype ArrayBuffer = Bytes "8 word list" | Detached

type_synonym BufferStore = "ref \<Rightarrow> ArrayBuffer"

record Uint8Array =
  buffer :: ref

text \<open>\<^verbatim>\<open>new Uint8Array(arrayBuffer)\<close>: a view of the buffer given, which is not copied.\<close>

definition newUint8Array :: "ref \<Rightarrow> Uint8Array" where
  "newUint8Array arrayBuffer = \<lparr> buffer = arrayBuffer \<rparr>"

text \<open>
  The collaborators of pdf-lib. \<open>load\<close> is \<^verbatim>\<open>PDFDocument.load\<close> followed by
  \<^verbatim>\<open>getPages\<close>: it is given the store and the reference of a buffer, may change the
  store, and fails or returns the pages. \<open>embedFont\<close> gives the font, \<open>save\<close>
  serialises the pages.
\<close>

record PdfLib =
  load :: "BufferStore \<Rightarrow> ref \<Rightarrow> BufferStore \<times> (error + (Size \<times> DrawOp list) list)"
  embedFont :: PDFFont
  save :: "(Size \<times> DrawOp list) list \<Rightarrow> error + 8 word list"

text \<open>
  \<^verbatim>\<open>regeneratePdfWithModifiedText\<close>. Its \<^verbatim>\<open>catch\<close> logs the error and throws it
  again. The result is the store after the call, the reference that was handed to
  \<open>load\<close>, and what the function returns.
\<close>

definition regeneratePdfWithModifiedText ::
  "PdfLib \<Rightarrow> BufferStore \<Rightarrow> ref \<Rightarrow> PdfTextMap \<Rightarrow> BufferStore \<times> ref \<times> (error + 8 word list)" where
  "regeneratePdfWithModifiedText lib s originalPdfArrayBuffer textMap =
     (let bufferCopy = buffer (newUint8Array originalPdfArrayBuffer)
      in case load lib s bufferCopy of
           (s', Inl e) \<Rightarrow> (s', bufferCopy, Inl e)
         | (s', Inr pgs) \<Rightarrow>
             (s', bufferCopy, save lib (applyModifiedBlocks (embedFont lib) textMap pgs)))"

section \<open>Extraction pipeline\<close>

text \<open>
  A text item as pdf.js reports it (\<^verbatim>\<open>item: any\<close>): \<^verbatim>\<open>str\<close>, the six values of
  \<^verbatim>\<open>transform\<close>, and the optional \<^verbatim>\<open>width\<close>, \<^verbatim>\<open>height\<close>, \<^verbatim>\<open>fontSize\<close> and
  \<^verbatim>\<open>fontName\<close>, here \<open>itemWidth\<close>, \<open>itemHeight\<close>, \<open>itemFontSize\<close> and
  \<open>itemFontName\<close>; a field that is absent is \<open>None\<close>.
\<close>

record PdfJsTextItem =
  str :: string
  transform :: "real \<times> real \<times> real \<times> real \<times> real \<times> real"
  itemWidth :: "real option"
  itemHeight :: "real option"
  itemFontSize :: "real option"
  itemFontName :: "string option"

text \<open>\<^verbatim>\<open>transform[3]\<close>, \<^verbatim>\<open>transform[4]\<close> and \<^verbatim>\<open>transform[5]\<close>.\<close>

definition transform3 :: "real \<times> real \<times> real \<times> real \<times> real \<times> real \<Rightarrow> real" where
  "transform3 = (\<lambda>(a, b, c, d, e, f). d)"

definition transform4 :: "real \<times> real \<times> real \<times> real \<times> real \<times> real \<Rightarrow> real" where
  "transform4 = (\<lambda>(a, b, c, d, e, f). e)"

definition transform5 :: "real \<times> real \<times> real \<times> real \<times> real \<times> real \<Rightarrow> real" where
  "transform5 = (\<lambda>(a, b, c, d, e, f). f)"

text \<open>
  \<^verbatim>\<open>v || d\<close> for an optional number \<open>v\<close>: \<open>d\<close> when \<open>v\<close> is absent and also when it
  is \<open>0\<close>, which is falsy.
\<close>

definition orElse :: "real option \<Rightarrow> real \<Rightarrow> real" where
  "orElse v d = (case v of None \<Rightarrow> d | Some w \<Rightarrow> if w = 0 then d else w)"

text \<open>The function mapped over the items of a page.\<close>

definition convertItem :: "int \<Rightarrow> PdfJsTextItem \<Rightarrow> TextItem" where
  "convertItem pageIndex' item =
     (let fontSize' = orElse (itemHeight item) (transform3 (transform item) * orElse (itemFontSize item) 10);
          height' = fontSize' * 1.2
      in \<lparr> text = str item,
           position =
             \<lparr> width = orElse (itemWidth item) (real (length (str item)) * fontSize' * 0.6),
               height = height',
               x = transform4 (transform item),
               y = transform5 (transform item),
               fontSize = Some fontSize',
               fontName = itemFontName item \<rparr>,
           pageIndex = pageIndex' \<rparr>)"

text \<open>
  The loop over the pages of the loaded document; a page is its viewport and the items of
  its text content. The state is \<^verbatim>\<open>allTextItems\<close> and \<^verbatim>\<open>pageInfo\<close>.
\<close>

fun extractPagesFrom ::
  "int \<Rightarrow> (Size \<times> PdfJsTextItem list) list \<Rightarrow> TextItem list \<times> Size list \<Rightarrow> TextItem list \<times> Size list" where
  "extractPagesFrom pageIndex' [] acc = acc"
| "extractPagesFrom pageIndex' ((viewport, content) # rest) (allTextItems, pageInfo) =
     extractPagesFrom (pageIndex' + 1) rest
       (allTextItems @ map (convertItem pageIndex') content,
        pageInfo @ [\<lparr> width = width viewport, height = height viewport \<rparr>])"

text \<open>\<^verbatim>\<open>extractTextWithPositions\<close>, from the loaded document on.\<close>

definition extractTextWithPositions :: "(Size \<times> PdfJsTextItem list) list \<Rightarrow> error + PdfTextMap" where
  "extractTextWithPositions pdfDoc =
     (case extractPagesFrom 0 pdfDoc ([], []) of
        (allTextItems, pageInfo) \<Rightarrow>
          (case groupTextIntoBlocks allTextItems of
             Inl e \<Rightarrow> Inl e
           | Inr blocks' \<Rightarrow> Inr \<lparr> blocks = blocks', pages = pageInfo \<rparr>))"

section \<open>Notions of the specification and examples\<close>

text \<open>
  The width and the height of the intersection of two boxes, as the specification of the
  block locator speaks of them; the intersection has a positive area when both are
  positive.
\<close>

definition overlapWidth :: "Box \<Rightarrow> Box \<Rightarrow> real" where
  "overlapWidth a b = min (x a + width a) (x b + width b) - max (x a) (x b)"

definition overlapHeight :: "Box \<Rightarrow> Box \<Rightarrow> real" where
  "overlapHeight a b = min (y a + height a) (y b + height b) - max (y a) (y b)"

text \<open>A glyph run of height 12 on page 0, and a block on page 0, for the examples.\<close>

definition exampleRun :: "real \<Rightarrow> real \<Rightarrow> real \<Rightarrow> TextItem" where
  "exampleRun x0 y0 w =
     \<lparr> text = ''run'',
       position = \<lparr> width = w, height = 12, x = x0, y = y0,
                    fontSize = Some 10, fontName = None \<rparr>,
       pageIndex = 0 \<rparr>"

definition exampleBlock :: "string \<Rightarrow> real \<Rightarrow> real \<Rightarrow> real \<Rightarrow> real \<Rightarrow> TextBlock" where
  "exampleBlock t x0 y0 w h =
     \<lparr> text = t,
       position = \<lparr> width = w, height = h, x = x0, y = y0 \<rparr>,
       pageIndex = 0,
       items = [],
       isModified = False,
       originalText = None \<rparr>"

definition exampleMap :: PdfTextMap where
  "exampleMap =
     \<lparr> blocks = [exampleBlock ''Summary'' 0 0 10 10, exampleBlock ''Bar   baz'' 5 5 10 10],
       pages = [\<lparr> width = 612, height = 792 \<rparr>] \<rparr>"

text \<open>
  The key by which \<^verbatim>\<open>replaceTextInBlock\<close> looks its target up: the page index and the
  origin of the box.
\<close>

definition sameKey :: "TextBlock \<Rightarrow> TextBlock \<Rightarrow> bool" where
  "sameKey target block =
     (pageIndex block = pageIndex target \<and>
      x (position block) = x (position target) \<and>
      y (position block) = y (position target))"

text \<open>
  A heap that holds the two arrays of \<open>exampleMap\<close>, the map object that refers to them,
  a target that has the key of the second block but another size and another text, and a
  target with a key that no block has.
\<close>

definition exampleHeap :: Heap where
  "exampleHeap =
     \<lparr> blockArrays = (\<lambda>r. [])(0 := blocks exampleMap),
       pageArrays = (\<lambda>r. [])(1 := pages exampleMap),
       nextRef = 2,
       consoleErrors = [] \<rparr>"

definition exampleMapObject :: PdfTextMapObject where
  "exampleMapObject = \<lparr> blocksRef = 0, pagesRef = 1 \<rparr>"

definition staleTarget :: TextBlock where
  "staleTarget = exampleBlock ''Stale'' 5 5 99 3"

definition absentTarget :: TextBlock where
  "absentTarget = exampleBlock ''Absent'' 300 300 10 10"

text \<open>
  The condition under which the loop of \<^verbatim>\<open>groupTextIntoBlocks\<close> closes the open block
  before it takes an item, and the items that a state of the loop holds, in order.
\<close>

definition closesBlock :: "GroupState \<Rightarrow> TextItem \<Rightarrow> bool" where
  "closesBlock st item =
     (length (currentBlock st) > 0 \<and>
      (pageIndex item \<noteq> currentPageIndex st \<or>
       \<bar>y (position item) - lastY st\<bar> > height (position item) * 0.5 \<or>
       x (position item) > lastRight st + width (position item) * 0.5))"

definition itemsOf :: "GroupState \<Rightarrow> TextItem list" where
  "itemsOf st = concat (map items (groupedBlocks st)) @ currentBlock st"

text \<open>
  The white rectangle that covers a block on a page of height \<open>pageHeight\<close>, and what
  the renderer draws for a block: the rectangle, then the wrapped text.
\<close>

definition whiteOut :: "real \<Rightarrow> TextBlock \<Rightarrow> DrawOp" where
  "whiteOut pageHeight block =
     DrawRectangle
       \<lparr> width = width (position block), height = height (position block),
         x = x (position block),
         y = pageHeight - y (position block) - height (position block) \<rparr>
       (Rgb 1 1 1) 1"

definition redraw :: "PDFFont \<Rightarrow> real \<Rightarrow> TextBlock \<Rightarrow> DrawOp list" where
  "redraw font pageHeight block =
     whiteOut pageHeight block #
     drawTextWithWrapping [] (text block) (x (position block))
       (pageHeight - y (position block) - height (position block))
       (width (position block)) font 10"

text \<open>The \<open>y\<close> coordinate of an operation, in the page space.\<close>

fun drawnAtY :: "DrawOp \<Rightarrow> real" where
  "drawnAtY (DrawRectangle box c opacity) = y box"
| "drawnAtY (DrawText t atX atY sz) = atY"

text \<open>
  The invariant of the loops of \<^verbatim>\<open>drawTextWithWrapping\<close>: the operations drawn so far
  have increasing \<open>y\<close>, all below the place of the next line.
\<close>

definition below :: "real \<Rightarrow> WrapState \<Rightarrow> bool" where
  "below y0 st =
     (sorted_wrt (<) (map drawnAtY (page st)) \<and>
      (\<forall>op \<in> set (page st). drawnAtY op < y0 + yOffset st))"

text \<open>The state \<open>st\<close> on a page that had the operations \<open>p\<close> before.\<close>

definition prepend :: "DrawOp list \<Rightarrow> WrapState \<Rightarrow> WrapState" where
  "prepend p st = \<lparr> page = p @ page st, line = line st, yOffset = yOffset st \<rparr>"

text \<open>
  Collaborators for the examples: a font in which every character is half the font size
  wide; a store with one buffer; a library whose \<open>load\<close> takes the buffer it is given
  (it detaches it) and returns one empty page of 612 by 792, and whose \<open>save\<close> writes
  one byte for each page, the number of operations on it.
\<close>

definition charWidthFont :: PDFFont where
  "charWidthFont t sz = real (length t) * sz * 0.5"

definition exampleStore :: BufferStore where
  "exampleStore = (\<lambda>r. Detached)(0 := Bytes [0x25, 0x50, 0x44, 0x46])"

definition detachingLib :: PdfLib where
  "detachingLib =
     \<lparr> load = (\<lambda>s r. (s(r := Detached), Inr [(\<lparr> width = 612, height = 792 \<rparr>, [])])),
       embedFont = charWidthFont,
       save = (\<lambda>pgs. Inr (map (\<lambda>pg. of_nat (length (snd pg))) pgs)) \<rparr>"

definition exampleModifiedMap :: PdfTextMap where
  "exampleModifiedMap =
     \<lparr> blocks = [exampleBlock ''Summary'' 0 0 10 10,
                 (exampleBlock ''New text'' 72 100 30 12)
                   \<lparr> isModified := True, originalText := Some ''Old'' \<rparr>],
       pages = [\<lparr> width = 612, height = 792 \<rparr>] \<rparr>"

text \<open>
  A text item of pdf.js that reports a width of 50 and a height of 10, and a document of
  one page that holds it.
\<close>

definition exampleItem :: PdfJsTextItem where
  "exampleItem =
     \<lparr> str = ''Hello'', transform = (10, 0, 0, 10, 72, 700),
       itemWidth = Some 50, itemHeight = Some 10,
       itemFontSize = None, itemFontName = Some ''g_d0_f1'' \<rparr>"

definition examplePdfDoc :: "(Size \<times> PdfJsTextItem list) list" where
  "examplePdfDoc = [(\<lparr> width = 612, height = 792 \<rparr>, [exampleItem])]"

text \<open>What extraction makes of \<open>examplePdfDoc\<close>.\<close>

definition exampleExtracted :: PdfTextMap where
  "exampleExtracted =
     \<lparr> blocks =
         [\<lparr> text = ''Hello'',
            position = \<lparr> width = 50, height = 12, x = 72, y = 700 \<rparr>,
            pageIndex = 0,
            items = [convertItem 0 exampleItem],
            isModified = False,
            originalText = None \<rparr>],
       pages = [\<lparr> width = 612, height = 792 \<rparr>] \<rparr>"

text \<open>
  Notions for the proofs about the matcher: \<open>calculateSimilarity\<close> with sets in the
  place of its lists; a string without white space at its end; a string that can be a
  word, which is not empty and has no white space.
\<close>

definition wordSetSimilarity :: "string \<Rightarrow> string \<Rightarrow> real" where
  "wordSetSimilarity s1 s2 =
     (if s1 = s2 then 1
      else if s1 = [] \<or> s2 = [] then 0
      else real (card (set (splitWhiteSpace s1) \<inter> set (splitWhiteSpace s2))) /
           real (card (set (splitWhiteSpace s1) \<union> set (splitWhiteSpace s2))))"

definition trimEnd :: "string \<Rightarrow> string" where
  "trimEnd s = rev (dropWhile isWhiteSpace (rev s))"

definition wordLike :: "string \<Rightarrow> bool" where
  "wordLike w = (w \<noteq> [] \<and> (\<forall>c \<in> set w. \<not> isWhiteSpace c))"

section \<open>Properties of the similarity matcher\<close>

lemmas fuzzy_eval =
  fuzzyTextMatch_def normalize_def trim_def toLowerCase_def toLowerChar_def
  calculateSimilarity_def splitWhiteSpace_def isWhiteSpace_def newSet_def

lemma length_newSet: "length (newSet vs) = card (set vs)"
  by (simp add: newSet_def length_remdups_card_conv)

lemma set_newSet: "set (newSet vs) = set vs"
  by (simp add: newSet_def)

lemma take_length_eq_iff: "take (length t) s = t \<longleftrightarrow> (\<exists>after. s = t @ after)"
proof
  assume "take (length t) s = t"
  then have "s = t @ drop (length t) s"
    by (metis append_take_drop_id)
  then show "\<exists>after. s = t @ after" ..
next
  assume "\<exists>after. s = t @ after"
  then show "take (length t) s = t" by auto
qed

lemma containsSpec_Cons:
  "containsSpec (c # s) t \<longleftrightarrow> (\<exists>after. c # s = t @ after) \<or> containsSpec s t"
  unfolding containsSpec_def
proof
  assume "\<exists>before after. c # s = before @ t @ after"
  then obtain before after where h: "c # s = before @ t @ after" by blast
  show "(\<exists>after. c # s = t @ after) \<or> (\<exists>before after. s = before @ t @ after)"
  proof (cases before)
    case Nil
    with h show ?thesis by auto
  next
    case (Cons d before')
    with h have "s = before' @ t @ after" by simp
    then show ?thesis by blast
  qed
next
  assume "(\<exists>after. c # s = t @ after) \<or> (\<exists>before after. s = before @ t @ after)"
  then show "\<exists>before after. c # s = before @ t @ after"
  proof
    assume "\<exists>after. c # s = t @ after"
    then obtain after where "c # s = [] @ t @ after" by auto
    then show ?thesis by blast
  next
    assume "\<exists>before after. s = before @ t @ after"
    then obtain before after where "s = before @ t @ after" by blast
    then have "c # s = (c # before) @ t @ after" by simp
    then show ?thesis by blast
  qed
qed

lemma stringIncludes_iff: "stringIncludes s t \<longleftrightarrow> containsSpec s t"
proof (induction s)
  case Nil
  show ?case by (auto simp: containsSpec_def)
next
  case (Cons c s)
  then show ?case
    by (simp only: stringIncludes.simps take_length_eq_iff containsSpec_Cons)
qed

lemma intersection_size:
  "length (newSet (filter (\<lambda>w. w \<in> set (newSet B)) (newSet A))) = card (set A \<inter> set B)"
proof -
  have "set (filter (\<lambda>w. w \<in> set (newSet B)) (newSet A)) = set A \<inter> set B"
    by (auto simp: set_newSet)
  then show ?thesis
    by (simp only: length_newSet)
qed

lemma union_size: "length (newSet (newSet A @ newSet B)) = card (set A \<union> set B)"
  by (simp add: length_newSet set_newSet)

lemma calculateSimilarity_wordSetSimilarity:
  "calculateSimilarity s1 s2 = wordSetSimilarity s1 s2"
  by (simp add: calculateSimilarity_def wordSetSimilarity_def Let_def intersection_size
      union_size)

lemma wordSetSimilarity_commute: "wordSetSimilarity s1 s2 = wordSetSimilarity s2 s1"
  by (auto simp: wordSetSimilarity_def Int_commute Un_commute)

subsection \<open>The normalisation\<close>

lemma isWhiteSpace_spaceSpec: "isWhiteSpace c = spaceSpec c"
proof -
  define n where "n = (of_char c :: nat)"
  have e: "((9 \<le> n \<and> n \<le> 13) \<or> n = 32) \<longleftrightarrow> n \<in> {9, 10, 11, 12, 13, 32}"
    by auto
  have "isWhiteSpace c \<longleftrightarrow>
        (of_char c :: nat) \<in> of_char ` set [CHR 0x09, CHR 0x0A, CHR 0x0B, CHR 0x0C, CHR 0x0D, CHR '' '']"
    unfolding isWhiteSpace_def by (metis (no_types) inj_image_mem_iff inj_of_char)
  also have "\<dots> \<longleftrightarrow> n \<in> {9, 10, 11, 12, 13, 32}"
    by (simp add: n_def)
  finally show ?thesis
    unfolding spaceSpec_def n_def [symmetric] e .
qed

lemma spaceSpec_eq: "spaceSpec = isWhiteSpace"
  by (rule ext) (simp add: isWhiteSpace_spaceSpec)

lemma lowerSpec_letter:
  assumes "(of_char d :: nat) = of_char c + 32" "65 \<le> (of_char c :: nat)" "(of_char c :: nat) \<le> 90"
  shows "lowerSpec c = d"
proof -
  have "(of_char (char_of (of_char c + 32 :: nat)) :: nat) = of_char c + 32"
    using assms(3) by simp
  then have "(of_char (lowerSpec c) :: nat) = of_char d"
    using assms by (simp add: lowerSpec_def)
  then show ?thesis by simp
qed

lemma upper_codes:
  "c \<in> set ''ABCDEFGHIJKLMNOPQRSTUVWXYZ'' \<longleftrightarrow>
     65 \<le> (of_char c :: nat) \<and> (of_char c :: nat) \<le> 90"
proof -
  have codes: "map of_char ''ABCDEFGHIJKLMNOPQRSTUVWXYZ'' = [65 ..< 91 :: nat]"
    by simp
  have "c \<in> set ''ABCDEFGHIJKLMNOPQRSTUVWXYZ'' \<longleftrightarrow>
        (of_char c :: nat) \<in> of_char ` set ''ABCDEFGHIJKLMNOPQRSTUVWXYZ''"
    by (metis (no_types) inj_image_mem_iff inj_of_char)
  also have "\<dots> \<longleftrightarrow> (of_char c :: nat) \<in> set [65 ..< 91 :: nat]"
    unfolding codes [symmetric] set_map ..
  also have "\<dots> \<longleftrightarrow> 65 \<le> (of_char c :: nat) \<and> (of_char c :: nat) \<le> 90"
    unfolding set_upt by auto
  finally show ?thesis .
qed

lemma toLowerChar_lowerSpec: "toLowerChar c = lowerSpec c"
proof (cases "c \<in> set ''ABCDEFGHIJKLMNOPQRSTUVWXYZ''")
  case True
  then have r: "65 \<le> (of_char c :: nat)" "(of_char c :: nat) \<le> 90"
    unfolding upper_codes by simp_all
  have "(of_char (toLowerChar c) :: nat) = of_char c + 32"
    using True by (auto simp: toLowerChar_def)
  from lowerSpec_letter [OF this r] show ?thesis ..
next
  case False
  then have "\<not> (65 \<le> (of_char c :: nat) \<and> (of_char c :: nat) \<le> 90)"
    unfolding upper_codes .
  then have "lowerSpec c = c"
    by (auto simp: lowerSpec_def)
  moreover from False have "toLowerChar c = c"
    by (simp add: toLowerChar_def)
  ultimately show ?thesis by simp
qed

lemma isWhiteSpace_toLowerChar: "isWhiteSpace (toLowerChar c) = isWhiteSpace c"
proof (cases "c \<in> set ''ABCDEFGHIJKLMNOPQRSTUVWXYZ''")
  case True
  then show ?thesis
    by (auto simp: toLowerChar_def isWhiteSpace_def)
next
  case False
  then have "toLowerChar c = c"
    by (simp add: toLowerChar_def)
  then show ?thesis by simp
qed

lemma wordsSpec_unfold:
  "wordsSpec s =
     (if dropWhile isWhiteSpace s = [] then []
      else takeWhile (\<lambda>c. \<not> isWhiteSpace c) (dropWhile isWhiteSpace s)
           # wordsSpec (dropWhile (\<lambda>c. \<not> isWhiteSpace c) (dropWhile isWhiteSpace s)))"
  by (subst wordsSpec.simps) (simp only: spaceSpec_eq)

lemma wordsSpec_induct [case_names step]:
  assumes "\<And>s. (dropWhile isWhiteSpace s \<noteq> [] \<Longrightarrow>
              Q (dropWhile (\<lambda>c. \<not> isWhiteSpace c) (dropWhile isWhiteSpace s))) \<Longrightarrow> Q s"
  shows "Q s"
  using assms wordsSpec.induct [of Q s] unfolding spaceSpec_eq by blast

lemma trim_trimEnd: "trim s = trimEnd (dropWhile isWhiteSpace s)"
  by (simp add: trim_def trimEnd_def)

lemma trimEnd_Cons: "\<not> isWhiteSpace c \<Longrightarrow> trimEnd (c # s) = c # trimEnd s"
  by (simp add: trimEnd_def dropWhile_append3)

lemma trimEnd_all_space: "\<forall>c \<in> set s. isWhiteSpace c \<Longrightarrow> trimEnd s = []"
  by (simp add: trimEnd_def)

lemma trimEnd_append_word:
  "\<exists>c \<in> set r. \<not> isWhiteSpace c \<Longrightarrow> trimEnd (l @ r) = l @ trimEnd r"
  by (auto simp: trimEnd_def)

lemma trimEnd_append_space:
  assumes "\<forall>c \<in> set r. isWhiteSpace c"
  shows "trimEnd (l @ r) = trimEnd l"
proof -
  have "dropWhile isWhiteSpace (rev r @ rev l) = dropWhile isWhiteSpace (rev l)"
    by (rule dropWhile_append2) (use assms in auto)
  then show ?thesis
    by (simp add: trimEnd_def)
qed

lemma trimEnd_word: "wordLike w \<Longrightarrow> trimEnd w = w"
proof (induction w)
  case Nil
  then show ?case by (simp add: wordLike_def)
next
  case (Cons c w)
  then have c: "\<not> isWhiteSpace c" by (simp add: wordLike_def)
  show ?case
  proof (cases w)
    case Nil
    with c show ?thesis by (simp add: trimEnd_def)
  next
    case (Cons d w')
    with Cons.prems have "wordLike w" by (simp add: wordLike_def)
    with Cons.IH c show ?thesis by (simp add: trimEnd_Cons)
  qed
qed

lemma collapse_word_append:
  "\<forall>c \<in> set w. \<not> isWhiteSpace c \<Longrightarrow> collapseWhiteSpace (w @ z) = w @ collapseWhiteSpace z"
  by (induction w) simp_all

lemma collapse_spaces_then_word:
  assumes "sp \<noteq> []" "\<forall>c \<in> set sp. isWhiteSpace c" "t = [] \<or> \<not> isWhiteSpace (hd t)"
  shows "collapseWhiteSpace (sp @ t) = CHR '' '' # collapseWhiteSpace t"
proof -
  from assms(1) obtain c sp' where sp: "sp = c # sp'" by (cases sp) auto
  with assms(2) have c: "isWhiteSpace c" and sp': "\<forall>c \<in> set sp'. isWhiteSpace c" by simp_all
  have "dropWhile isWhiteSpace (sp' @ t) = dropWhile isWhiteSpace t"
    using sp' by simp
  also have "\<dots> = t"
    using assms(3) by (simp add: dropWhile_eq_self_iff)
  finally show ?thesis
    using c by (simp add: sp)
qed

lemma wordsSpec_Nil: "dropWhile isWhiteSpace s = [] \<Longrightarrow> wordsSpec s = []"
  by (subst wordsSpec_unfold) (simp only: if_True simp_thms)

lemma wordsSpec_Cons:
  "dropWhile isWhiteSpace s \<noteq> [] \<Longrightarrow>
   wordsSpec s =
     takeWhile (\<lambda>c. \<not> isWhiteSpace c) (dropWhile isWhiteSpace s)
       # wordsSpec (dropWhile (\<lambda>c. \<not> isWhiteSpace c) (dropWhile isWhiteSpace s))"
  by (subst wordsSpec_unfold) (simp only: if_False simp_thms)

lemma first_word:
  assumes "dropWhile isWhiteSpace s \<noteq> []"
  shows "wordLike (takeWhile (\<lambda>c. \<not> isWhiteSpace c) (dropWhile isWhiteSpace s))"
proof -
  obtain c r where r: "dropWhile isWhiteSpace s = c # r"
    using assms by (cases "dropWhile isWhiteSpace s") auto
  from hd_dropWhile [OF assms] have c: "\<not> isWhiteSpace c"
    unfolding r by simp
  have "\<forall>c \<in> set (takeWhile (\<lambda>c. \<not> isWhiteSpace c) (c # r)). \<not> isWhiteSpace c"
    by (auto dest: set_takeWhileD)
  moreover have "takeWhile (\<lambda>c. \<not> isWhiteSpace c) (c # r) \<noteq> []"
    using c by simp
  ultimately show ?thesis
    unfolding r wordLike_def by blast
qed

lemma wordsSpec_wordLike: "w \<in> set (wordsSpec s) \<Longrightarrow> wordLike w"
proof (induction s rule: wordsSpec_induct)
  case (step s)
  show ?case
  proof (cases "dropWhile isWhiteSpace s = []")
    case True
    from step.prems show ?thesis
      unfolding wordsSpec_Nil [OF True] by simp
  next
    case False
    from step.prems have
      "w = takeWhile (\<lambda>c. \<not> isWhiteSpace c) (dropWhile isWhiteSpace s) \<or>
       w \<in> set (wordsSpec (dropWhile (\<lambda>c. \<not> isWhiteSpace c) (dropWhile isWhiteSpace s)))"
      unfolding wordsSpec_Cons [OF False] by simp
    with first_word [OF False] step.IH [OF False] show ?thesis by blast
  qed
qed

lemma after_word:
  assumes "dropWhile (\<lambda>c. \<not> isWhiteSpace c) r \<noteq> []"
  shows "\<exists>e r1. dropWhile (\<lambda>c. \<not> isWhiteSpace c) r = e # r1 \<and> isWhiteSpace e"
proof -
  obtain e r1 where r: "dropWhile (\<lambda>c. \<not> isWhiteSpace c) r = e # r1"
    using assms by (cases "dropWhile (\<lambda>c. \<not> isWhiteSpace c) r") auto
  from hd_dropWhile [OF assms] have "isWhiteSpace e"
    unfolding r by simp
  with r show ?thesis by blast
qed

lemma after_spaces:
  assumes "dropWhile isWhiteSpace r \<noteq> []"
  shows "\<exists>e r1. dropWhile isWhiteSpace r = e # r1 \<and> \<not> isWhiteSpace e"
proof -
  obtain e r1 where r: "dropWhile isWhiteSpace r = e # r1"
    using assms by (cases "dropWhile isWhiteSpace r") auto
  from hd_dropWhile [OF assms] have "\<not> isWhiteSpace e"
    unfolding r by simp
  with r show ?thesis by blast
qed

lemma collapse_trim_step:
  assumes w: "wordLike w"
    and r': "r' = [] \<or> isWhiteSpace (hd r')"
    and IH: "collapseWhiteSpace (trim r') = unwordsSpec (wordsSpec r')"
  shows "collapseWhiteSpace (trimEnd (w @ r')) = unwordsSpec (w # wordsSpec r')"
proof (cases "dropWhile isWhiteSpace r' = []")
  case True
  then have all: "\<forall>c \<in> set r'. isWhiteSpace c" by simp
  have "trimEnd (w @ r') = w"
    unfolding trimEnd_append_space [OF all] by (rule trimEnd_word [OF w])
  moreover have "collapseWhiteSpace w = w"
    using collapse_word_append [of w "[]"] w by (simp add: wordLike_def)
  ultimately show ?thesis
    by (simp add: wordsSpec_Nil [OF True])
next
  case False
  from after_spaces [OF False] obtain e d1 where
    d: "dropWhile isWhiteSpace r' = e # d1" and e: "\<not> isWhiteSpace e" by blast
  let ?sp = "takeWhile isWhiteSpace r'"
  have r'split: "r' = ?sp @ e # d1"
    unfolding d [symmetric] by simp
  have spall: "\<forall>c \<in> set ?sp. isWhiteSpace c"
    by (auto dest: set_takeWhileD)
  have spne: "?sp \<noteq> []"
  proof
    assume "?sp = []"
    with r'split have "r' = e # d1" by simp
    with r' e show False by simp
  qed
  have exd: "\<exists>c \<in> set (e # d1). \<not> isWhiteSpace c"
    using e by simp
  have ex: "\<exists>c \<in> set r'. \<not> isWhiteSpace c"
    by (subst r'split) (use e in simp)
  have td: "trim r' = e # trimEnd d1"
    unfolding trim_trimEnd d by (rule trimEnd_Cons [OF e])
  have T: "trim r' = [] \<or> \<not> isWhiteSpace (hd (trim r'))"
    unfolding td using e by simp
  have "trimEnd (w @ r') = w @ trimEnd r'"
    by (rule trimEnd_append_word [OF ex])
  also have "trimEnd r' = trimEnd (?sp @ e # d1)"
    using r'split by simp
  also have "\<dots> = ?sp @ trimEnd (e # d1)"
    by (rule trimEnd_append_word [OF exd])
  also have "trimEnd (e # d1) = trim r'"
    unfolding trim_trimEnd d ..
  finally have trs: "trimEnd (w @ r') = w @ ?sp @ trim r'" .
  have wfree: "\<forall>c \<in> set w. \<not> isWhiteSpace c"
    using w by (simp add: wordLike_def)
  have "collapseWhiteSpace (trimEnd (w @ r')) = w @ collapseWhiteSpace (?sp @ trim r')"
    unfolding trs by (rule collapse_word_append [OF wfree])
  also have "collapseWhiteSpace (?sp @ trim r') = CHR '' '' # collapseWhiteSpace (trim r')"
    by (rule collapse_spaces_then_word [OF spne spall T])
  finally have lhs:
    "collapseWhiteSpace (trimEnd (w @ r')) = w @ CHR '' '' # unwordsSpec (wordsSpec r')"
    unfolding IH .
  obtain v vs where "wordsSpec r' = v # vs"
    unfolding wordsSpec_Cons [OF False] by blast
  then show ?thesis
    unfolding lhs by simp
qed

lemma collapse_trim_words: "collapseWhiteSpace (trim s) = unwordsSpec (wordsSpec s)"
proof (induction s rule: wordsSpec_induct)
  case (step s)
  show ?case
  proof (cases "dropWhile isWhiteSpace s = []")
    case True
    have "trim s = []"
      unfolding trim_trimEnd True by (simp add: trimEnd_def)
    then show ?thesis
      by (simp add: wordsSpec_Nil [OF True])
  next
    case False
    let ?r = "dropWhile isWhiteSpace s"
    let ?w = "takeWhile (\<lambda>c. \<not> isWhiteSpace c) ?r"
    let ?r' = "dropWhile (\<lambda>c. \<not> isWhiteSpace c) ?r"
    have r': "?r' = [] \<or> isWhiteSpace (hd ?r')"
    proof (cases "?r' = []")
      case True
      then show ?thesis ..
    next
      case ne: False
      from after_word [OF ne] show ?thesis by auto
    qed
    have "trim s = trimEnd (?w @ ?r')"
      unfolding trim_trimEnd by simp
    then show ?thesis
      unfolding wordsSpec_Cons [OF False]
      using collapse_trim_step [OF first_word [OF False] r' step.IH [OF False]]
      by simp
  qed
qed

lemma unwordsSpec_Cons: "\<exists>rest. unwordsSpec (v # vs) = v @ rest"
  by (cases vs) simp_all

lemma unwordsSpec_starts_word:
  assumes "wordLike v"
  shows "dropWhile isWhiteSpace (unwordsSpec (v # vs)) = unwordsSpec (v # vs)"
proof -
  obtain rest where u: "unwordsSpec (v # vs) = v @ rest"
    using unwordsSpec_Cons by blast
  obtain c v' where v: "v = c # v'" "\<not> isWhiteSpace c"
    using assms by (cases v) (auto simp: wordLike_def)
  have "unwordsSpec (v # vs) = c # (v' @ rest)"
    using u v(1) by simp
  then show ?thesis
    using v(2) by simp
qed

lemma unwordsSpec_eq_Nil:
  "\<forall>w \<in> set ws. wordLike w \<Longrightarrow> unwordsSpec ws = [] \<longleftrightarrow> ws = []"
proof (cases ws)
  case Nil
  then show ?thesis by simp
next
  case (Cons v vs)
  assume "\<forall>w \<in> set ws. wordLike w"
  with Cons have "v \<noteq> []" by (simp add: wordLike_def)
  moreover obtain rest where "unwordsSpec (v # vs) = v @ rest"
    using unwordsSpec_Cons by blast
  ultimately show ?thesis
    by (simp add: Cons)
qed

lemma splitWhiteSpaceFrom_word:
  "\<forall>c \<in> set w. \<not> isWhiteSpace c \<Longrightarrow>
   splitWhiteSpaceFrom cur (w @ z) = splitWhiteSpaceFrom (rev w @ cur) z"
  by (induction w arbitrary: cur) simp_all

lemma splitWhiteSpace_unwords:
  "ws \<noteq> [] \<Longrightarrow> \<forall>w \<in> set ws. wordLike w \<Longrightarrow> splitWhiteSpaceFrom [] (unwordsSpec ws) = ws"
proof (induction ws rule: unwordsSpec.induct)
  case 1
  then show ?case by simp
next
  case (2 w)
  then have "\<forall>c \<in> set w. \<not> isWhiteSpace c" by (simp add: wordLike_def)
  from splitWhiteSpaceFrom_word [OF this, of "[]" "[]"] show ?case by simp
next
  case (3 w v ws)
  then have wf: "\<forall>c \<in> set w. \<not> isWhiteSpace c" and v: "wordLike v"
    and rest: "\<forall>u \<in> set (v # ws). wordLike u"
    by (simp_all add: wordLike_def)
  have sp: "isWhiteSpace (CHR '' '')" by (simp add: isWhiteSpace_def)
  have "splitWhiteSpaceFrom [] (unwordsSpec (w # v # ws))
        = splitWhiteSpaceFrom (rev w) (CHR '' '' # unwordsSpec (v # ws))"
    using splitWhiteSpaceFrom_word [OF wf, of "[]" "CHR '' '' # unwordsSpec (v # ws)"] by simp
  also have "\<dots> = w # splitWhiteSpaceFrom [] (dropWhile isWhiteSpace (unwordsSpec (v # ws)))"
    using sp by simp
  also have "\<dots> = w # splitWhiteSpaceFrom [] (unwordsSpec (v # ws))"
    by (simp only: unwordsSpec_starts_word [OF v])
  also have "\<dots> = w # v # ws"
    using "3.IH" rest by simp
  finally show ?case .
qed

lemma lower_space: "toLowerChar (CHR '' '') = CHR '' ''"
  by (simp add: toLowerChar_def)

lemma map_lower_unwords:
  "map toLowerChar (unwordsSpec ws) = unwordsSpec (map (map toLowerChar) ws)"
  by (induction ws rule: unwordsSpec.induct) (simp_all add: lower_space)

lemma wordLike_lower: "wordLike w \<Longrightarrow> wordLike (map toLowerChar w)"
  by (simp add: wordLike_def isWhiteSpace_toLowerChar)

lemma lowerSpec_eq: "lowerSpec = toLowerChar"
  by (rule ext) (simp add: toLowerChar_lowerSpec)

lemma lowerWords_wordLike: "\<forall>w \<in> set (lowerWordsSpec s). wordLike w"
  unfolding lowerWordsSpec_def lowerSpec_eq
  by (auto intro: wordLike_lower wordsSpec_wordLike)

lemma normalize_normalizeSpec: "normalize s = normalizeSpec s"
  unfolding normalize_def toLowerCase_def collapse_trim_words map_lower_unwords
    normalizeSpec_def lowerWordsSpec_def lowerSpec_eq ..

lemma splitWhiteSpace_normalize:
  assumes "normalizeSpec s \<noteq> []"
  shows "splitWhiteSpace (normalizeSpec s) = lowerWordsSpec s"
proof -
  from assms have "lowerWordsSpec s \<noteq> []"
    unfolding normalizeSpec_def by auto
  from splitWhiteSpace_unwords [OF this lowerWords_wordLike] show ?thesis
    by (simp add: splitWhiteSpace_def normalizeSpec_def)
qed

lemma calculateSimilarity_jaccardSpec:
  "calculateSimilarity (normalize a) (normalize b) = jaccardSpec a b"
proof (cases "normalizeSpec a = normalizeSpec b \<or> normalizeSpec a = [] \<or> normalizeSpec b = []")
  case True
  then show ?thesis
    unfolding calculateSimilarity_wordSetSimilarity normalize_normalizeSpec
    by (auto simp: wordSetSimilarity_def jaccardSpec_def)
next
  case False
  then have ne: "normalizeSpec a \<noteq> []" "normalizeSpec b \<noteq> []" by simp_all
  show ?thesis
    unfolding calculateSimilarity_wordSetSimilarity normalize_normalizeSpec
    using False
    by (simp add: wordSetSimilarity_def jaccardSpec_def splitWhiteSpace_normalize [OF ne(1)]
        splitWhiteSpace_normalize [OF ne(2)])
qed

text \<open>
  C7. The normalisation of \<open>fuzzyTextMatch\<close> is the normalisation of the
  specification: it trims the string, collapses every run of white space inside it to one
  space and puts it in lower case. \<open>fuzzyTextMatch a b\<close> holds exactly when one
  normalised string contains the other as a substring or the Jaccard similarity of their
  sets of words, which is 1 for equal normalised strings and 0 when one is empty, is above
  0.70. For \<open>a b c\<close> and \<open>b c d\<close> the similarity is 2/4 and there is no match.
\<close>

theorem fuzzyTextMatch_iff_spec:
  "normalize a = normalizeSpec a \<and>
   calculateSimilarity (normalize a) (normalize b) = jaccardSpec a b \<and>
   (fuzzyTextMatch a b \<longleftrightarrow> fuzzyMatchSpec a b) \<and>
   calculateSimilarity (normalize ''a b c'') (normalize ''b c d'') = 2 / 4 \<and>
   jaccardSpec ''a b c'' ''b c d'' = 2 / 4 \<and>
   \<not> fuzzyTextMatch ''a b c'' ''b c d''"
proof (intro conjI)
  show "normalize a = normalizeSpec a"
    by (rule normalize_normalizeSpec)
  show "calculateSimilarity (normalize a) (normalize b) = jaccardSpec a b"
    by (rule calculateSimilarity_jaccardSpec)
  show "fuzzyTextMatch a b \<longleftrightarrow> fuzzyMatchSpec a b"
    by (simp only: fuzzyTextMatch_def Let_def stringIncludes_iff calculateSimilarity_jaccardSpec)
      (simp only: normalize_normalizeSpec fuzzyMatchSpec_def)
  show e: "calculateSimilarity (normalize ''a b c'') (normalize ''b c d'') = 2 / 4"
    by (simp add: fuzzy_eval)
  show "jaccardSpec ''a b c'' ''b c d'' = 2 / 4"
    unfolding calculateSimilarity_jaccardSpec [symmetric] by (rule e)
  show "\<not> fuzzyTextMatch ''a b c'' ''b c d''"
    by (simp add: fuzzy_eval)
qed

theorem fuzzyTextMatch_iff_spec_witness:
  "fuzzyMatchSpec '' x'' ''x y'' \<and>
   fuzzyMatchSpec ''a   b'' ''a b c d e'' \<and>
   fuzzyMatchSpec ''A'' ''a b c d'' \<and>
   \<not> fuzzyMatchSpec ''Python'' ''Java'' \<and>
   normalizeSpec ''  Senior   Software Engineer '' = ''senior software engineer''"
proof -
  have "fuzzyTextMatch '' x'' ''x y''"
    by (simp add: fuzzy_eval)
  moreover have "fuzzyTextMatch ''a   b'' ''a b c d e''"
    by (simp add: fuzzy_eval)
  moreover have "fuzzyTextMatch ''A'' ''a b c d''"
    by (simp add: fuzzy_eval)
  moreover have "\<not> fuzzyTextMatch ''Python'' ''Java''"
    by (simp add: fuzzy_eval)
  moreover have "normalize ''  Senior   Software Engineer '' = ''senior software engineer''"
    by (simp add: fuzzy_eval)
  ultimately show ?thesis
    using fuzzyTextMatch_iff_spec [of "'' x''" "''x y''"]
      fuzzyTextMatch_iff_spec [of "''a   b''" "''a b c d e''"]
      fuzzyTextMatch_iff_spec [of "''A''" "''a b c d''"]
      fuzzyTextMatch_iff_spec [of "''Python''" "''Java''"]
      fuzzyTextMatch_iff_spec [of "''  Senior   Software Engineer ''" "[]"]
    by simp
qed

text \<open>
  C10. \<open>fuzzyTextMatch\<close> is symmetric in its two arguments.
\<close>

theorem fuzzyTextMatch_symmetric: "fuzzyTextMatch a b = fuzzyTextMatch b a"
  by (auto simp: fuzzyTextMatch_def Let_def calculateSimilarity_wordSetSimilarity
      wordSetSimilarity_commute [of "normalize a"])

theorem fuzzyTextMatch_symmetric_witness:
  "fuzzyTextMatch ''engineer'' ''Software Engineer'' \<and>
   fuzzyTextMatch ''Software Engineer'' ''engineer''"
proof -
  have "fuzzyTextMatch ''Software Engineer'' ''engineer''"
    by (simp add: fuzzy_eval)
  then show ?thesis
    using fuzzyTextMatch_symmetric [of "''engineer''" "''Software Engineer''"] by simp
qed

section \<open>Properties of the block builder\<close>

lemma createBlockFromItems_items:
  "its \<noteq> [] \<Longrightarrow> \<exists>blk. createBlockFromItems its = Inr blk \<and> items blk = its"
  by (cases its) (auto simp: createBlockFromItems_def split: prod.splits)

text \<open>
  C6. Two runs \<open>a\<close> and \<open>b\<close> on one page, given in either order, with \<open>y = 500\<close> and
  \<open>y = 495\<close>, height 12 and widths that are not negative. If \<open>b\<close> starts at the right
  edge of \<open>a\<close> plus 1, and this gap of 1 is at most half the width of \<open>b\<close>, the run
  being placed, the result is one block of both runs. If \<open>b\<close> starts at the right edge of
  \<open>a\<close> plus the width of \<open>a\<close>, and this gap is more than half the width of \<open>b\<close>, the
  result is two blocks, one of each run. No run gives no block.
\<close>

theorem groupTextIntoBlocks_two_runs:
  fixes a b :: TextItem
  assumes pg: "pageIndex a = pageIndex b"
    and ya: "y (position a) = 500" and ha: "height (position a) = 12"
    and yb: "y (position b) = 495" and hb: "height (position b) = 12"
    and wa: "0 \<le> width (position a)" and wb: "0 \<le> width (position b)"
    and tis: "textItems = [a, b] \<or> textItems = [b, a]"
  shows "(x (position b) = x (position a) + width (position a) + 1 \<and>
          1 \<le> 0.5 * width (position b)
            \<longrightarrow> (\<exists>blk. groupTextIntoBlocks textItems = Inr [blk] \<and> items blk = [a, b])) \<and>
         (x (position b) = x (position a) + width (position a) + width (position a) \<and>
          width (position a) > 0.5 * width (position b)
            \<longrightarrow> (\<exists>blk1 blk2. groupTextIntoBlocks textItems = Inr [blk1, blk2] \<and>
                   items blk1 = [a] \<and> items blk2 = [b])) \<and>
         groupTextIntoBlocks [] = Inr []"
proof (intro conjI impI)
  assume h: "x (position b) = x (position a) + width (position a) + 1 \<and>
             1 \<le> 0.5 * width (position b)"
  have cab: "compareItems a b < 0" and cba: "compareItems b a > 0"
    using h pg ya ha yb hb wa by (simp_all add: compareItems_def)
  have srt: "sortWith compareItems textItems = [a, b]"
    using tis cab cba by (auto simp: sortWith_def)
  obtain blk where blk: "createBlockFromItems [a, b] = Inr blk" "items blk = [a, b]"
    using createBlockFromItems_items [of "[a, b]"] by auto
  have "groupTextIntoBlocks textItems = Inr [blk]"
    using h pg ya ha yb hb blk(1)
    by (simp add: groupTextIntoBlocks_def srt groupStep_def Let_def)
  with blk(2) show "\<exists>blk. groupTextIntoBlocks textItems = Inr [blk] \<and> items blk = [a, b]"
    by blast
next
  assume h: "x (position b) = x (position a) + width (position a) + width (position a) \<and>
             width (position a) > 0.5 * width (position b)"
  have cab: "compareItems a b < 0" and cba: "compareItems b a > 0"
    using h pg ya ha yb hb wa wb by (simp_all add: compareItems_def)
  have srt: "sortWith compareItems textItems = [a, b]"
    using tis cab cba by (auto simp: sortWith_def)
  obtain blk1 where blk1: "createBlockFromItems [a] = Inr blk1" "items blk1 = [a]"
    using createBlockFromItems_items [of "[a]"] by auto
  obtain blk2 where blk2: "createBlockFromItems [b] = Inr blk2" "items blk2 = [b]"
    using createBlockFromItems_items [of "[b]"] by auto
  have "groupTextIntoBlocks textItems = Inr [blk1, blk2]"
    using h pg ya ha yb hb blk1(1) blk2(1)
    by (simp add: groupTextIntoBlocks_def srt groupStep_def Let_def)
  with blk1(2) blk2(2)
  show "\<exists>blk1 blk2. groupTextIntoBlocks textItems = Inr [blk1, blk2] \<and>
          items blk1 = [a] \<and> items blk2 = [b]"
    by blast
next
  show "groupTextIntoBlocks [] = Inr []"
    by (simp add: groupTextIntoBlocks_def sortWith_def)
qed

theorem groupTextIntoBlocks_two_runs_witness:
  "(\<exists>blk. groupTextIntoBlocks [exampleRun 100 500 40, exampleRun 141 495 40] = Inr [blk] \<and>
          items blk = [exampleRun 100 500 40, exampleRun 141 495 40]) \<and>
   (\<exists>blk1 blk2. groupTextIntoBlocks [exampleRun 180 495 40, exampleRun 100 500 40]
                  = Inr [blk1, blk2] \<and>
          items blk1 = [exampleRun 100 500 40] \<and> items blk2 = [exampleRun 180 495 40])"
proof
  show "\<exists>blk. groupTextIntoBlocks [exampleRun 100 500 40, exampleRun 141 495 40] = Inr [blk] \<and>
          items blk = [exampleRun 100 500 40, exampleRun 141 495 40]"
    using groupTextIntoBlocks_two_runs
      [of "exampleRun 100 500 40" "exampleRun 141 495 40"
          "[exampleRun 100 500 40, exampleRun 141 495 40]"]
    by (simp add: exampleRun_def)
  show "\<exists>blk1 blk2. groupTextIntoBlocks [exampleRun 180 495 40, exampleRun 100 500 40]
                  = Inr [blk1, blk2] \<and>
          items blk1 = [exampleRun 100 500 40] \<and> items blk2 = [exampleRun 180 495 40]"
    using groupTextIntoBlocks_two_runs
      [of "exampleRun 100 500 40" "exampleRun 180 495 40"
          "[exampleRun 180 495 40, exampleRun 100 500 40]"]
    by (simp add: exampleRun_def)
qed

section \<open>Properties of the block locator\<close>

lemma overlapsRegion_iff:
  "overlapsRegion region block \<longleftrightarrow>
     overlapWidth (position block) region > 0 \<and> overlapHeight (position block) region > 0"
  unfolding overlapsRegion_def overlapWidth_def overlapHeight_def Let_def
  by (simp only: less_max_iff_disj less_irrefl simp_thms)

lemma firstFuzzyMatch_find:
  "firstFuzzyMatch t bs = find (\<lambda>block. fuzzyTextMatch (text block) t) bs"
  by (induction bs) simp_all

lemma filter_filter_conj: "filter P (filter Q bs) = filter (\<lambda>b. Q b \<and> P b) bs"
  by (induction bs) simp_all

text \<open>
  C3. \<open>findTextBlockToReplace\<close> returns \<open>None\<close> exactly when no block of the map on the
  given page has an intersection with the region whose width and height are both
  positive. Otherwise it returns the first of the overlapping blocks, in the order of the
  map, whose text matches \<open>originalText\<close>, and the first overlapping block when none
  matches.
\<close>

theorem findTextBlockToReplace_result:
  fixes m :: PdfTextMap and region :: Box and p :: int
  defines "overlapping \<equiv>
     filter (\<lambda>block. pageIndex block = p \<and> overlapWidth (position block) region > 0 \<and>
                      overlapHeight (position block) region > 0) (blocks m)"
  shows "(findTextBlockToReplace m t region p = None \<longleftrightarrow>
            \<not> (\<exists>block \<in> set (blocks m). pageIndex block = p \<and>
                 overlapWidth (position block) region > 0 \<and>
                 overlapHeight (position block) region > 0)) \<and>
         (findTextBlockToReplace m t region p \<noteq> None \<longrightarrow>
            findTextBlockToReplace m t region p =
              (case find (\<lambda>block. fuzzyTextMatch (text block) t) overlapping of
                 Some block \<Rightarrow> Some block
               | None \<Rightarrow> Some (hd overlapping)))"
proof -
  have ov: "filter (overlapsRegion region) (filter (\<lambda>block. pageIndex block = p) (blocks m))
            = overlapping"
    unfolding overlapping_def filter_filter_conj
    by (rule filter_cong) (auto simp: overlapsRegion_iff)
  have res: "findTextBlockToReplace m t region p =
       (if overlapping = [] then None
        else case find (\<lambda>block. fuzzyTextMatch (text block) t) overlapping of
               Some block \<Rightarrow> Some block
             | None \<Rightarrow> Some (overlapping ! 0))"
    unfolding findTextBlockToReplace_def Let_def ov firstFuzzyMatch_find length_0_conv
    by (rule refl)
  have emp: "overlapping = [] \<longleftrightarrow>
       \<not> (\<exists>block \<in> set (blocks m). pageIndex block = p \<and>
            overlapWidth (position block) region > 0 \<and>
            overlapHeight (position block) region > 0)"
    unfolding overlapping_def by (auto simp: filter_empty_conv)
  show ?thesis
  proof (cases "overlapping = []")
    case True
    with res emp show ?thesis by simp
  next
    case False
    then have "overlapping ! 0 = hd overlapping"
      by (simp add: hd_conv_nth)
    with False res emp show ?thesis
      by (auto split: option.splits)
  qed
qed

theorem findTextBlockToReplace_result_witness:
  "findTextBlockToReplace exampleMap ''bar BAZ'' \<lparr> width = 2, height = 2, x = 6, y = 6 \<rparr> 0
     = Some (exampleBlock ''Bar   baz'' 5 5 10 10) \<and>
   findTextBlockToReplace exampleMap ''Python'' \<lparr> width = 2, height = 2, x = 6, y = 6 \<rparr> 0
     = Some (exampleBlock ''Summary'' 0 0 10 10) \<and>
   findTextBlockToReplace exampleMap ''Summary'' \<lparr> width = 2, height = 2, x = 10, y = 20 \<rparr> 0
     = None"
proof (intro conjI)
  let ?r = "\<lparr> width = 2, height = 2, x = 6, y = 6 \<rparr> :: Box"
  have ex: "\<exists>block \<in> set (blocks exampleMap). pageIndex block = 0 \<and>
              overlapWidth (position block) ?r > 0 \<and> overlapHeight (position block) ?r > 0"
    by (simp add: exampleMap_def exampleBlock_def overlapWidth_def overlapHeight_def)
  have f1: "fuzzyTextMatch ''Bar   baz'' ''bar BAZ''" "\<not> fuzzyTextMatch ''Summary'' ''bar BAZ''"
    by (simp_all add: fuzzy_eval)
  have f2: "\<not> fuzzyTextMatch ''Bar   baz'' ''Python''" "\<not> fuzzyTextMatch ''Summary'' ''Python''"
    by (simp_all add: fuzzy_eval)
  from ex findTextBlockToReplace_result [of exampleMap "''bar BAZ''" ?r 0]
  have "findTextBlockToReplace exampleMap ''bar BAZ'' ?r 0 =
          (case find (\<lambda>block. fuzzyTextMatch (text block) ''bar BAZ'')
                  (filter (\<lambda>block. pageIndex block = 0 \<and> overlapWidth (position block) ?r > 0 \<and>
                             overlapHeight (position block) ?r > 0) (blocks exampleMap)) of
             Some block \<Rightarrow> Some block
           | None \<Rightarrow> Some (hd (filter (\<lambda>block. pageIndex block = 0 \<and>
                             overlapWidth (position block) ?r > 0 \<and>
                             overlapHeight (position block) ?r > 0) (blocks exampleMap))))"
    by blast
  then show "findTextBlockToReplace exampleMap ''bar BAZ'' ?r 0
               = Some (exampleBlock ''Bar   baz'' 5 5 10 10)"
    using f1 by (simp add: exampleMap_def exampleBlock_def overlapWidth_def overlapHeight_def)
  from ex findTextBlockToReplace_result [of exampleMap "''Python''" ?r 0]
  have "findTextBlockToReplace exampleMap ''Python'' ?r 0 =
          (case find (\<lambda>block. fuzzyTextMatch (text block) ''Python'')
                  (filter (\<lambda>block. pageIndex block = 0 \<and> overlapWidth (position block) ?r > 0 \<and>
                             overlapHeight (position block) ?r > 0) (blocks exampleMap)) of
             Some block \<Rightarrow> Some block
           | None \<Rightarrow> Some (hd (filter (\<lambda>block. pageIndex block = 0 \<and>
                             overlapWidth (position block) ?r > 0 \<and>
                             overlapHeight (position block) ?r > 0) (blocks exampleMap))))"
    by blast
  then show "findTextBlockToReplace exampleMap ''Python'' ?r 0
               = Some (exampleBlock ''Summary'' 0 0 10 10)"
    using f2 by (simp add: exampleMap_def exampleBlock_def overlapWidth_def overlapHeight_def)
  let ?q = "\<lparr> width = 2, height = 2, x = 10, y = 20 \<rparr> :: Box"
  have "\<not> (\<exists>block \<in> set (blocks exampleMap). pageIndex block = 0 \<and>
              overlapWidth (position block) ?q > 0 \<and> overlapHeight (position block) ?q > 0)"
    by (simp add: exampleMap_def exampleBlock_def overlapWidth_def overlapHeight_def)
  with findTextBlockToReplace_result [of exampleMap "''Summary''" ?q 0]
  show "findTextBlockToReplace exampleMap ''Summary'' ?q 0 = None"
    by blast
qed

section \<open>Properties of the text map update\<close>

lemma findIndexFrom_eq:
  "findIndexFrom i p vs =
     (if \<exists>v \<in> set vs. p v then i + int (length (takeWhile (\<lambda>v. \<not> p v) vs)) else -1)"
  by (induction vs arbitrary: i) auto

lemma findIndex_eq:
  "findIndex p vs =
     (if \<exists>v \<in> set vs. p v then int (length (takeWhile (\<lambda>v. \<not> p v) vs)) else -1)"
  by (simp add: findIndex_def findIndexFrom_eq)

lemma first_index_props:
  assumes "\<exists>v \<in> set vs. p v"
  shows "length (takeWhile (\<lambda>v. \<not> p v) vs) < length vs \<and>
         p (vs ! length (takeWhile (\<lambda>v. \<not> p v) vs)) \<and>
         (\<forall>j < length (takeWhile (\<lambda>v. \<not> p v) vs). \<not> p (vs ! j))"
  using assms
proof (induction vs)
  case Nil
  then show ?case by simp
next
  case (Cons v vs)
  show ?case
  proof (cases "p v")
    case True
    then show ?thesis by simp
  next
    case False
    with Cons.prems have "\<exists>v \<in> set vs. p v" by simp
    from Cons.IH [OF this] False show ?thesis
      by (auto simp: nth_Cons split: nat.splits)
  qed
qed

lemma replaceTextInBlock_found_eq:
  assumes wf: "blocksRef m < nextRef h" "pagesRef m < nextRef h"
    and found: "\<exists>block \<in> set (blocks (readMap h m)). sameKey target block"
  shows "replaceTextInBlock h m target newText =
     (h\<lparr> blockArrays := (blockArrays h)
            (nextRef h := (blockArrays h (blocksRef m))
               [length (takeWhile (\<lambda>b. \<not> sameKey target b) (blockArrays h (blocksRef m))) :=
                  target\<lparr> text := newText, originalText := Some (text target),
                          isModified := True \<rparr>]),
         pageArrays := (pageArrays h)(Suc (nextRef h) := pageArrays h (pagesRef m)),
         nextRef := Suc (Suc (nextRef h)) \<rparr>,
      \<lparr> blocksRef = nextRef h, pagesRef = Suc (nextRef h) \<rparr>)"
proof -
  have fi: "findIndex (\<lambda>block. pageIndex block = pageIndex target \<and>
                           x (position block) = x (position target) \<and>
                           y (position block) = y (position target))
              (blockArrays h (blocksRef m))
        = int (length (takeWhile (\<lambda>b. \<not> sameKey target b) (blockArrays h (blocksRef m))))"
    using found by (simp add: findIndex_eq readMap_def sameKey_def)
  show ?thesis
    using wf
    by (simp add: replaceTextInBlock_def copyBlockArray_def copyPageArray_def Let_def fi)
qed

lemma replaceTextInBlock_not_found_eq:
  assumes wf: "blocksRef m < nextRef h" "pagesRef m < nextRef h"
    and nf: "\<not> (\<exists>block \<in> set (blocks (readMap h m)). sameKey target block)"
  shows "replaceTextInBlock h m target newText =
     (h\<lparr> blockArrays := (blockArrays h)(nextRef h := blockArrays h (blocksRef m)),
         pageArrays := (pageArrays h)(Suc (nextRef h) := pageArrays h (pagesRef m)),
         nextRef := Suc (Suc (nextRef h)),
         consoleErrors := consoleErrors h @ [''Block not found in text map''] \<rparr>,
      m)"
proof -
  have fi: "findIndex (\<lambda>block. pageIndex block = pageIndex target \<and>
                           x (position block) = x (position target) \<and>
                           y (position block) = y (position target))
              (blockArrays h (blocksRef m))
        = -1"
    using nf by (simp add: findIndex_eq readMap_def sameKey_def)
  show ?thesis
    using wf
    by (simp add: replaceTextInBlock_def copyBlockArray_def copyPageArray_def Let_def fi)
qed

lemmas replace_eval =
  replaceTextInBlock_def copyBlockArray_def copyPageArray_def Let_def findIndex_def
  readMap_def exampleHeap_def exampleMapObject_def exampleMap_def exampleBlock_def
  staleTarget_def absentTarget_def sameKey_def

text \<open>
  C4, as the code has it. Let the arrays of the map be allocated and let a block of the
  map have the page index and the origin of the target. Then the result is a map on two
  new arrays: its pages are those of the input; its blocks are those of the input, but
  for the first block with the key of the target, whose place is taken by the target
  itself with \<open>text\<close> set to \<open>newText\<close>, \<open>originalText\<close> set to the text of the
  target and \<open>isModified\<close> set; so the position, the page index and the items of the
  new block are those of the target. No array that existed before the call has changed,
  and the input map reads as before.
\<close>

theorem replaceTextInBlock_replaces_first_match:
  assumes wf: "blocksRef m < nextRef h" "pagesRef m < nextRef h"
    and found: "\<exists>block \<in> set (blocks (readMap h m)). sameKey target block"
    and res: "replaceTextInBlock h m target newText = (h', m')"
  shows "(\<exists>i < length (blocks (readMap h m)).
            sameKey target (blocks (readMap h m) ! i) \<and>
            (\<forall>j<i. \<not> sameKey target (blocks (readMap h m) ! j)) \<and>
            blocks (readMap h' m') ! i =
              target\<lparr> text := newText, originalText := Some (text target),
                      isModified := True \<rparr> \<and>
            (\<forall>j < length (blocks (readMap h m)). j \<noteq> i \<longrightarrow>
               blocks (readMap h' m') ! j = blocks (readMap h m) ! j)) \<and>
         length (blocks (readMap h' m')) = length (blocks (readMap h m)) \<and>
         pages (readMap h' m') = pages (readMap h m) \<and>
         blocksRef m' \<noteq> blocksRef m \<and> pagesRef m' \<noteq> pagesRef m \<and>
         readMap h' m = readMap h m \<and>
         (\<forall>r < nextRef h. blockArrays h' r = blockArrays h r \<and> pageArrays h' r = pageArrays h r)"
proof -
  let ?old = "blockArrays h (blocksRef m)"
  let ?i = "length (takeWhile (\<lambda>b. \<not> sameKey target b) ?old)"
  let ?new = "target\<lparr> text := newText, originalText := Some (text target), isModified := True \<rparr>"
  have f: "\<exists>v \<in> set ?old. sameKey target v"
    using found by (simp add: readMap_def)
  note ip = first_index_props [OF f]
  have h': "h' = h\<lparr> blockArrays := (blockArrays h)(nextRef h := ?old [?i := ?new]),
         pageArrays := (pageArrays h)(Suc (nextRef h) := pageArrays h (pagesRef m)),
         nextRef := Suc (Suc (nextRef h)) \<rparr>"
    and m': "m' = \<lparr> blocksRef = nextRef h, pagesRef = Suc (nextRef h) \<rparr>"
    using replaceTextInBlock_found_eq [OF wf found, of newText] res by simp_all
  have old: "blocks (readMap h m) = ?old"
    by (simp add: readMap_def)
  have new: "blocks (readMap h' m') = ?old [?i := ?new]"
    by (simp add: readMap_def h' m')
  have 1: "\<exists>i < length (blocks (readMap h m)).
            sameKey target (blocks (readMap h m) ! i) \<and>
            (\<forall>j<i. \<not> sameKey target (blocks (readMap h m) ! j)) \<and>
            blocks (readMap h' m') ! i = ?new \<and>
            (\<forall>j < length (blocks (readMap h m)). j \<noteq> i \<longrightarrow>
               blocks (readMap h' m') ! j = blocks (readMap h m) ! j)"
    unfolding old new using ip by (intro exI [of _ ?i]) simp
  have 2: "length (blocks (readMap h' m')) = length (blocks (readMap h m))"
    unfolding old new by simp
  have 3: "pages (readMap h' m') = pages (readMap h m)"
    by (simp add: readMap_def h' m')
  have 4: "blocksRef m' \<noteq> blocksRef m \<and> pagesRef m' \<noteq> pagesRef m"
    using wf by (simp add: m')
  have 5: "readMap h' m = readMap h m"
    using wf by (simp add: readMap_def h')
  have 6: "\<forall>r < nextRef h. blockArrays h' r = blockArrays h r \<and> pageArrays h' r = pageArrays h r"
    by (simp add: h')
  from 1 2 3 4 5 6 show ?thesis by blast
qed

theorem replaceTextInBlock_replaces_first_match_witness:
  "pages (readMap (fst (replaceTextInBlock exampleHeap exampleMapObject staleTarget ''New''))
                  (snd (replaceTextInBlock exampleHeap exampleMapObject staleTarget ''New'')))
     = pages exampleMap \<and>
   readMap (fst (replaceTextInBlock exampleHeap exampleMapObject staleTarget ''New''))
           exampleMapObject = exampleMap \<and>
   length (blocks (readMap (fst (replaceTextInBlock exampleHeap exampleMapObject staleTarget ''New''))
                  (snd (replaceTextInBlock exampleHeap exampleMapObject staleTarget ''New''))))
     = 2"
proof -
  have wf: "blocksRef exampleMapObject < nextRef exampleHeap"
    "pagesRef exampleMapObject < nextRef exampleHeap"
    by (simp_all add: exampleMapObject_def exampleHeap_def)
  have found: "\<exists>block \<in> set (blocks (readMap exampleHeap exampleMapObject)).
                 sameKey staleTarget block"
    by (simp add: replace_eval)
  have rd: "readMap exampleHeap exampleMapObject = exampleMap"
    by (simp add: readMap_def exampleHeap_def exampleMapObject_def)
  have len: "length (blocks exampleMap) = 2"
    by (simp add: exampleMap_def)
  from replaceTextInBlock_replaces_first_match [OF wf found, of "''New''"
      "fst (replaceTextInBlock exampleHeap exampleMapObject staleTarget ''New'')"
      "snd (replaceTextInBlock exampleHeap exampleMapObject staleTarget ''New'')"]
  show ?thesis
    unfolding rd len by simp
qed

text \<open>
  The claim C4 as it is worded fails for a target that has the key of a block of the map
  and is not that block: the new block gets the size and the text of the target, not
  those of the block it replaces.
\<close>

theorem replaceTextInBlock_keeps_replaced_fields_counterexample:
  "readMap exampleHeap exampleMapObject = exampleMap \<and>
   sameKey staleTarget (blocks exampleMap ! 1) \<and>
   \<not> sameKey staleTarget (blocks exampleMap ! 0) \<and>
   \<not> (originalText
        (blocks (readMap (fst (replaceTextInBlock exampleHeap exampleMapObject staleTarget ''New''))
                         (snd (replaceTextInBlock exampleHeap exampleMapObject staleTarget ''New'')))
           ! 1)
        = Some (text (blocks exampleMap ! 1)) \<and>
      position
        (blocks (readMap (fst (replaceTextInBlock exampleHeap exampleMapObject staleTarget ''New''))
                         (snd (replaceTextInBlock exampleHeap exampleMapObject staleTarget ''New'')))
           ! 1)
        = position (blocks exampleMap ! 1))"
  by (simp add: replace_eval)

text \<open>
  C5. Let the arrays of the map be allocated and let no block of the map have the page
  index and the origin of the target. Then \<open>replaceTextInBlock\<close> returns the map object
  it was given, which reads as before, no array that existed before the call has
  changed, and the failure is reported on the console. The function has no \<^verbatim>\<open>throw\<close>:
  its model returns a heap and a map, with no branch for an error.
\<close>

theorem replaceTextInBlock_not_found:
  assumes wf: "blocksRef m < nextRef h" "pagesRef m < nextRef h"
    and nf: "\<not> (\<exists>block \<in> set (blocks (readMap h m)). sameKey target block)"
  shows "snd (replaceTextInBlock h m target newText) = m \<and>
         readMap (fst (replaceTextInBlock h m target newText)) m = readMap h m \<and>
         (\<forall>r < nextRef h.
            blockArrays (fst (replaceTextInBlock h m target newText)) r = blockArrays h r \<and>
            pageArrays (fst (replaceTextInBlock h m target newText)) r = pageArrays h r) \<and>
         consoleErrors (fst (replaceTextInBlock h m target newText)) =
           consoleErrors h @ [''Block not found in text map'']"
  unfolding replaceTextInBlock_not_found_eq [OF wf nf]
  using wf by (simp add: readMap_def)

theorem replaceTextInBlock_not_found_witness:
  "snd (replaceTextInBlock exampleHeap exampleMapObject absentTarget ''New'') = exampleMapObject \<and>
   readMap (fst (replaceTextInBlock exampleHeap exampleMapObject absentTarget ''New''))
           exampleMapObject = exampleMap \<and>
   consoleErrors (fst (replaceTextInBlock exampleHeap exampleMapObject absentTarget ''New''))
     = [''Block not found in text map'']"
proof -
  have wf: "blocksRef exampleMapObject < nextRef exampleHeap"
    "pagesRef exampleMapObject < nextRef exampleHeap"
    by (simp_all add: exampleMapObject_def exampleHeap_def)
  have nf: "\<not> (\<exists>block \<in> set (blocks (readMap exampleHeap exampleMapObject)).
                 sameKey absentTarget block)"
    by (simp add: replace_eval)
  have rd: "readMap exampleHeap exampleMapObject = exampleMap"
    by (simp add: readMap_def exampleHeap_def exampleMapObject_def)
  have ce: "consoleErrors exampleHeap = []"
    by (simp add: exampleHeap_def)
  from replaceTextInBlock_not_found [OF wf nf, of "''New''"]
  show ?thesis
    unfolding rd ce by simp
qed

section \<open>Properties of the re-flow renderer\<close>

text \<open>The three ways through the body of the loop over the words.\<close>

lemma wordStep_start:
  "line st = [] \<Longrightarrow> wordStep font x0 y0 mw fs st w = st\<lparr> line := w \<rparr>"
  by (simp add: wordStep_def Let_def)

lemma wordStep_flush:
  "line st \<noteq> [] \<Longrightarrow> mw < font (line st @ '' '' @ w) fs \<Longrightarrow>
   wordStep font x0 y0 mw fs st w =
     st\<lparr> page := page st @ [DrawText (line st) x0 (y0 + yOffset st) fs],
         line := w, yOffset := yOffset st + fs * 1.2 \<rparr>"
  by (simp add: wordStep_def Let_def)

lemma wordStep_extend:
  "line st \<noteq> [] \<Longrightarrow> \<not> mw < font (line st @ '' '' @ w) fs \<Longrightarrow>
   wordStep font x0 y0 mw fs st w = st\<lparr> line := line st @ '' '' @ w \<rparr>"
  by (simp add: wordStep_def Let_def)

lemma prepend_sel [simp]:
  "page (prepend p st) = p @ page st" "line (prepend p st) = line st"
  "yOffset (prepend p st) = yOffset st"
  by (simp_all add: prepend_def)

lemma wordStep_prefix:
  "wordStep font x0 y0 mw fs (prepend p st) w = prepend p (wordStep font x0 y0 mw fs st w)"
proof (cases "line st = []")
  case True
  then have "line (prepend p st) = []" by simp
  from wordStep_start
        [where st="prepend p st" and font=font and mw=mw and w=w and fs=fs
           and ?x0.0=x0 and ?y0.0=y0, OF this]
      wordStep_start
        [where st=st and font=font and mw=mw and w=w and fs=fs
           and ?x0.0=x0 and ?y0.0=y0, OF True]
    show ?thesis
    by (simp add: prepend_def)
next
  case False
  then have l: "line (prepend p st) \<noteq> []" by simp
  show ?thesis
  proof (cases "mw < font (line st @ '' '' @ w) fs")
    case True
    then have "mw < font (line (prepend p st) @ '' '' @ w) fs" by simp
    from wordStep_flush
        [where st="prepend p st" and font=font and mw=mw and w=w and fs=fs
           and ?x0.0=x0 and ?y0.0=y0, OF l this]
      wordStep_flush
        [where st=st and font=font and mw=mw and w=w and fs=fs
           and ?x0.0=x0 and ?y0.0=y0, OF False True]
    show ?thesis
      by (simp add: prepend_def)
  next
    case n: False
    then have "\<not> mw < font (line (prepend p st) @ '' '' @ w) fs" by simp
    from wordStep_extend
        [where st="prepend p st" and font=font and mw=mw and w=w and fs=fs
           and ?x0.0=x0 and ?y0.0=y0, OF l this]
      wordStep_extend
        [where st=st and font=font and mw=mw and w=w and fs=fs
           and ?x0.0=x0 and ?y0.0=y0, OF False n]
    show ?thesis
      by (simp add: prepend_def)
  qed
qed

lemma foldl_wordStep_prefix:
  "foldl (wordStep font x0 y0 mw fs) (prepend p st) ws =
   prepend p (foldl (wordStep font x0 y0 mw fs) st ws)"
  by (induction ws arbitrary: st) (simp_all add: wordStep_prefix)

lemma paragraphStep_blank:
  "trim para = [] \<Longrightarrow>
   paragraphStep font x0 y0 mw fs st para = st\<lparr> yOffset := yOffset st + fs * 1.2 \<rparr>"
  by (simp add: paragraphStep_def Let_def)

lemma paragraphStep_last:
  "trim para \<noteq> [] \<Longrightarrow>
   st' = foldl (wordStep font x0 y0 mw fs) (st\<lparr> line := [] \<rparr>) (splitChar (CHR '' '') para) \<Longrightarrow>
   line st' \<noteq> [] \<Longrightarrow>
   paragraphStep font x0 y0 mw fs st para =
     st'\<lparr> page := page st' @ [DrawText (line st') x0 (y0 + yOffset st') fs],
          yOffset := yOffset st' + fs * 1.2 * 1.5 \<rparr>"
  by (simp add: paragraphStep_def Let_def)

lemma paragraphStep_nolast:
  "trim para \<noteq> [] \<Longrightarrow>
   st' = foldl (wordStep font x0 y0 mw fs) (st\<lparr> line := [] \<rparr>) (splitChar (CHR '' '') para) \<Longrightarrow>
   line st' = [] \<Longrightarrow>
   paragraphStep font x0 y0 mw fs st para = st'"
  by (simp add: paragraphStep_def Let_def)

lemma prepend_line_reset: "(prepend p st)\<lparr> line := [] \<rparr> = prepend p (st\<lparr> line := [] \<rparr>)"
  by (simp add: prepend_def)

lemma paragraphStep_prefix:
  "paragraphStep font x0 y0 mw fs (prepend p st) para =
   prepend p (paragraphStep font x0 y0 mw fs st para)"
proof (cases "trim para = []")
  case True
  show ?thesis
    unfolding paragraphStep_blank [OF True] by (simp add: prepend_def)
next
  case False
  define st' where "st' = foldl (wordStep font x0 y0 mw fs) (st\<lparr> line := [] \<rparr>) (splitChar (CHR '' '') para)"
  have pst': "prepend p st' =
      foldl (wordStep font x0 y0 mw fs) ((prepend p st)\<lparr> line := [] \<rparr>) (splitChar (CHR '' '') para)"
    unfolding st'_def prepend_line_reset foldl_wordStep_prefix ..
  show ?thesis
  proof (cases "line st' = []")
    case True
    then have l: "line (prepend p st') = []" by simp
    show ?thesis
      unfolding paragraphStep_nolast [OF False st'_def True] paragraphStep_nolast [OF False pst' l] ..
  next
    case n: False
    then have l: "line (prepend p st') \<noteq> []" by simp
    show ?thesis
      unfolding paragraphStep_last [OF False st'_def n] paragraphStep_last [OF False pst' l]
      by (simp add: prepend_def)
  qed
qed

lemma foldl_paragraphStep_prefix:
  "foldl (paragraphStep font x0 y0 mw fs) (prepend p st) ps =
   prepend p (foldl (paragraphStep font x0 y0 mw fs) st ps)"
  by (induction ps arbitrary: st) (simp_all add: paragraphStep_prefix)

lemma drawTextWithWrapping_prefix:
  "drawTextWithWrapping pg t x0 y0 mw font fs = pg @ drawTextWithWrapping [] t x0 y0 mw font fs"
proof -
  have "\<lparr> page = pg, line = [], yOffset = 0 \<rparr> = prepend pg \<lparr> page = [], line = [], yOffset = 0 \<rparr>"
    by (simp add: prepend_def)
  then show ?thesis
    unfolding drawTextWithWrapping_def wrapText_def
    by (simp only: foldl_paragraphStep_prefix prepend_sel)
qed

lemma applyBlock_redraw: "applyBlock font ph pg block = pg @ redraw font ph block"
  unfolding applyBlock_def Let_def redraw_def whiteOut_def
  by (subst drawTextWithWrapping_prefix) simp

lemma foldl_applyBlock: "foldl (applyBlock font ph) pg bs = pg @ concat (map (redraw font ph) bs)"
  by (induction bs arbitrary: pg) (simp_all add: applyBlock_redraw)

lemma applyPagesFrom_length: "length (applyPagesFrom font m i pgs) = length pgs"
  by (induction pgs arbitrary: i) simp_all

lemma applyPagesFrom_nth:
  "k < length pgs \<Longrightarrow>
   applyPagesFrom font m i pgs ! k = applyPage font m (i + int k) (pgs ! k)"
proof (induction pgs arbitrary: i k)
  case Nil
  then show ?case by simp
next
  case (Cons pg pgs)
  show ?case
  proof (cases k)
    case 0
    then show ?thesis by simp
  next
    case (Suc k')
    with Cons.prems have "k' < length pgs" by simp
    from Cons.IH [OF this, of "i + 1"] Suc show ?thesis
      by (simp add: algebra_simps)
  qed
qed

lemma applyModifiedBlocks_nth:
  assumes "k < length pgs"
  shows "applyModifiedBlocks font m pgs ! k =
     (fst (pgs ! k),
      snd (pgs ! k) @
      concat (map (redraw font (height (fst (pgs ! k))))
                (filter (\<lambda>block. pageIndex block = int k \<and> isModified block) (blocks m))))"
  using assms
  by (simp add: applyModifiedBlocks_def applyPagesFrom_nth applyPage_def Let_def foldl_applyBlock)

text \<open>
  C2. When the parser returns the pages \<open>pgs\<close>, \<open>regeneratePdfWithModifiedText\<close>
  saves pages \<open>pgs'\<close>, as many and of the same sizes, where the page at index \<open>k\<close>
  has, after what it had, the operations \<open>redraw\<close> of the blocks of the map whose page
  index is \<open>k\<close> and that are modified, in the order of the map: for each of them the
  white rectangle at \<open>x\<close> and at the page height minus \<open>y\<close> minus the height of the
  block, with the width and the height of the block, then the wrapped text. A map with no
  modified block leaves every page as it was.
\<close>

theorem regeneratePdfWithModifiedText_draws_modified_blocks:
  assumes ld: "load lib s r = (s', Inr pgs)"
  shows "\<exists>pgs'. snd (snd (regeneratePdfWithModifiedText lib s r m)) = save lib pgs' \<and>
           length pgs' = length pgs \<and>
           (\<forall>k < length pgs.
              pgs' ! k =
                (fst (pgs ! k),
                 snd (pgs ! k) @
                 concat (map (redraw (embedFont lib) (height (fst (pgs ! k))))
                           (filter (\<lambda>block. pageIndex block = int k \<and> isModified block)
                              (blocks m))))) \<and>
           ((\<forall>block \<in> set (blocks m). \<not> isModified block) \<longrightarrow> pgs' = pgs)"
proof (intro exI conjI)
  let ?pgs' = "applyModifiedBlocks (embedFont lib) m pgs"
  show "snd (snd (regeneratePdfWithModifiedText lib s r m)) = save lib ?pgs'"
    by (simp add: regeneratePdfWithModifiedText_def Let_def newUint8Array_def ld)
  show len: "length ?pgs' = length pgs"
    by (simp add: applyModifiedBlocks_def applyPagesFrom_length)
  show nth: "\<forall>k < length pgs.
      ?pgs' ! k =
        (fst (pgs ! k),
         snd (pgs ! k) @
         concat (map (redraw (embedFont lib) (height (fst (pgs ! k))))
                   (filter (\<lambda>block. pageIndex block = int k \<and> isModified block) (blocks m))))"
    by (simp add: applyModifiedBlocks_nth)
  show "(\<forall>block \<in> set (blocks m). \<not> isModified block) \<longrightarrow> ?pgs' = pgs"
  proof
    assume un: "\<forall>block \<in> set (blocks m). \<not> isModified block"
    have "filter (\<lambda>block. pageIndex block = int k \<and> isModified block) (blocks m) = []" for k
      using un by (simp add: filter_empty_conv)
    with nth have "\<forall>k < length pgs. ?pgs' ! k = pgs ! k"
      by simp
    with len show "?pgs' = pgs"
      by (simp add: nth_equalityI)
  qed
qed

lemmas wrap_eval =
  drawTextWithWrapping_def wrapText_def splitChar_def paragraphStep_def wordStep_def
  trim_def isWhiteSpace_def charWidthFont_def Let_def

theorem regeneratePdfWithModifiedText_draws_modified_blocks_witness:
  "\<exists>pgs'. snd (snd (regeneratePdfWithModifiedText detachingLib exampleStore 0 exampleModifiedMap))
             = save detachingLib pgs' \<and>
          length pgs' = 1 \<and>
          pgs' ! 0 =
            (\<lparr> width = 612, height = 792 \<rparr>,
             [DrawRectangle \<lparr> width = 30, height = 12, x = 72, y = 680 \<rparr> (Rgb 1 1 1) 1,
              DrawText ''New'' 72 680 10,
              DrawText ''text'' 72 692 10])"
proof -
  have ld: "load detachingLib exampleStore 0 =
              (exampleStore(0 := Detached), Inr [(\<lparr> width = 612, height = 792 \<rparr>, [])])"
    by (simp add: detachingLib_def)
  have flt: "filter (\<lambda>block. pageIndex block = int 0 \<and> isModified block) (blocks exampleModifiedMap)
             = [(exampleBlock ''New text'' 72 100 30 12)
                  \<lparr> isModified := True, originalText := Some ''Old'' \<rparr>]"
    by (simp add: exampleModifiedMap_def exampleBlock_def)
  have rd: "redraw charWidthFont 792
              ((exampleBlock ''New text'' 72 100 30 12)
                 \<lparr> isModified := True, originalText := Some ''Old'' \<rparr>)
            = [DrawRectangle \<lparr> width = 30, height = 12, x = 72, y = 680 \<rparr> (Rgb 1 1 1) 1,
               DrawText ''New'' 72 680 10,
               DrawText ''text'' 72 692 10]"
    by (simp add: redraw_def whiteOut_def exampleBlock_def wrap_eval)
  have ef: "embedFont detachingLib = charWidthFont"
    by (simp add: detachingLib_def)
  from regeneratePdfWithModifiedText_draws_modified_blocks [OF ld, of exampleModifiedMap]
  obtain pgs' where
    "snd (snd (regeneratePdfWithModifiedText detachingLib exampleStore 0 exampleModifiedMap))
       = save detachingLib pgs'"
    "length pgs' = 1"
    "pgs' ! 0 =
       (\<lparr> width = 612, height = 792 \<rparr>,
        concat (map (redraw charWidthFont 792)
                  (filter (\<lambda>block. pageIndex block = int 0 \<and> isModified block)
                     (blocks exampleModifiedMap))))"
    unfolding ef by auto
  then show ?thesis
    unfolding flt by (intro exI [of _ pgs']) (simp add: rd)
qed

text \<open>
  The reference that \<open>regeneratePdfWithModifiedText\<close> hands to the parser, for the
  claim C9, which says that it is the reference of a fresh copy. It is the reference of
  the buffer of the caller, for every library, store and map, and the store after the call
  is the store that the parser leaves: with a parser that detaches the buffer it is
  given, the buffer of the caller is detached after the call.
\<close>

theorem regeneratePdfWithModifiedText_hands_over_input_buffer:
  "fst (snd (regeneratePdfWithModifiedText lib s r m)) = r \<and>
   fst (regeneratePdfWithModifiedText lib s r m) = fst (load lib s r) \<and>
   exampleStore 0 = Bytes [0x25, 0x50, 0x44, 0x46] \<and>
   fst (regeneratePdfWithModifiedText detachingLib exampleStore 0 exampleMap) 0 = Detached"
proof (intro conjI)
  show "fst (snd (regeneratePdfWithModifiedText lib s r m)) = r"
    by (simp add: regeneratePdfWithModifiedText_def Let_def newUint8Array_def
        split: prod.splits sum.splits)
  show "fst (regeneratePdfWithModifiedText lib s r m) = fst (load lib s r)"
    by (simp add: regeneratePdfWithModifiedText_def Let_def newUint8Array_def
        split: prod.splits sum.splits)
  show "exampleStore 0 = Bytes [0x25, 0x50, 0x44, 0x46]"
    by (simp add: exampleStore_def)
  show "fst (regeneratePdfWithModifiedText detachingLib exampleStore 0 exampleMap) 0 = Detached"
    by (simp add: regeneratePdfWithModifiedText_def Let_def newUint8Array_def detachingLib_def)
qed

subsection \<open>The direction of the wrapped lines\<close>

lemma below_line [simp]: "below y0 (st\<lparr> line := l \<rparr>) = below y0 st"
  by (simp add: below_def)

lemma below_draw:
  assumes "below y0 st" "0 < d"
  shows "below y0 (st\<lparr> page := page st @ [DrawText l x0 (y0 + yOffset st) fs],
                         yOffset := yOffset st + d \<rparr>)"
  using assms
  by (auto simp: below_def sorted_wrt_append intro: less_trans)

lemma below_advance:
  assumes "below y0 st" "0 < d"
  shows "below y0 (st\<lparr> yOffset := yOffset st + d \<rparr>)"
  using assms
  by (auto simp: below_def intro: less_trans)

lemma wordStep_below:
  assumes fs: "0 < fs" and b: "below y0 st"
  shows "below y0 (wordStep font x0 y0 mw fs st w)"
proof (cases "line st = []")
  case True
  show ?thesis
    unfolding wordStep_start [OF True] using b by simp
next
  case False
  show ?thesis
  proof (cases "mw < font (line st @ '' '' @ w) fs")
    case True
    have d: "0 < fs * 1.2" using fs by simp
    have "below y0 ((st\<lparr> page := page st @ [DrawText (line st) x0 (y0 + yOffset st) fs],
                         yOffset := yOffset st + fs * 1.2 \<rparr>)\<lparr> line := w \<rparr>)"
      unfolding below_line by (rule below_draw [OF b d])
    then show ?thesis
      unfolding wordStep_flush
          [where st=st and font=font and mw=mw and w=w and fs=fs, OF False True]
      by (simp add: below_def)
  next
    case n: False
    show ?thesis
      unfolding wordStep_extend
          [where st=st and font=font and mw=mw and w=w and fs=fs, OF False n] using b by simp
  qed
qed

lemma foldl_wordStep_below:
  assumes "0 < fs" "below y0 st"
  shows "below y0 (foldl (wordStep font x0 y0 mw fs) st ws)"
  using assms(2)
  by (induction ws arbitrary: st) (simp_all add: wordStep_below [OF assms(1)])

lemma paragraphStep_below:
  assumes fs: "0 < fs" and b: "below y0 st"
  shows "below y0 (paragraphStep font x0 y0 mw fs st para)"
proof (cases "trim para = []")
  case True
  have "0 < fs * 1.2" using fs by simp
  from below_advance [OF b this] show ?thesis
    unfolding paragraphStep_blank [OF True] .
next
  case False
  define st' where "st' = foldl (wordStep font x0 y0 mw fs) (st\<lparr> line := [] \<rparr>) (splitChar (CHR '' '') para)"
  have b0: "below y0 (st\<lparr> line := [] \<rparr>)"
    using b by simp
  have b1: "below y0 st'"
    unfolding st'_def by (rule foldl_wordStep_below [OF fs b0])
  show ?thesis
  proof (cases "line st' = []")
    case True
    show ?thesis
      unfolding paragraphStep_nolast [OF False st'_def True] by (rule b1)
  next
    case n: False
    have "0 < fs * 1.2 * 1.5" using fs by simp
    from below_draw [OF b1 this] show ?thesis
      unfolding paragraphStep_last [OF False st'_def n] .
  qed
qed

lemma wrapText_below:
  assumes "0 < fs"
  shows "below y0 (wrapText [] t x0 y0 mw font fs)"
proof -
  have "below y0 st \<Longrightarrow> below y0 (foldl (paragraphStep font x0 y0 mw fs) st ps)" for st ps
    by (induction ps arbitrary: st) (simp_all add: paragraphStep_below [OF assms])
  moreover have "below y0 \<lparr> page = [], line = [], yOffset = 0 \<rparr>"
    by (simp add: below_def)
  ultimately show ?thesis
    unfolding wrapText_def by blast
qed

text \<open>
  The place of the lines that \<open>drawTextWithWrapping\<close> draws, for the claim C1, which
  says that each line is drawn further down the page than the line before. For a
  positive font size the \<open>y\<close> coordinates of the lines increase in the order in which
  the lines are drawn: in the page space, whose \<open>y\<close> grows towards the top of the page,
  each line of a text is drawn above the line before it.
\<close>

theorem drawTextWithWrapping_lines_ascend:
  assumes "0 < fontSize'"
  shows "sorted_wrt (<)
           (map drawnAtY (drawTextWithWrapping [] txt x0 y0 maxWidth font fontSize'))"
  using wrapText_below [OF assms, of y0 "txt" x0 maxWidth font]
  by (simp add: below_def drawTextWithWrapping_def)

theorem drawTextWithWrapping_lines_ascend_witness:
  "drawTextWithWrapping [] (''aaa bbb'' @ [CHR 0x0A] @ ''ccc'') 50 700 20 charWidthFont 10
     = [DrawText ''aaa'' 50 700 10, DrawText ''bbb'' 50 712 10, DrawText ''ccc'' 50 730 10] \<and>
   sorted_wrt (<)
     (map drawnAtY
        (drawTextWithWrapping [] (''aaa bbb'' @ [CHR 0x0A] @ ''ccc'') 50 700 20 charWidthFont 10))"
proof
  show "drawTextWithWrapping [] (''aaa bbb'' @ [CHR 0x0A] @ ''ccc'') 50 700 20 charWidthFont 10
     = [DrawText ''aaa'' 50 700 10, DrawText ''bbb'' 50 712 10, DrawText ''ccc'' 50 730 10]"
    by (simp add: wrap_eval)
  have "(0 :: real) < 10" by simp
  from drawTextWithWrapping_lines_ascend [OF this]
  show "sorted_wrt (<)
     (map drawnAtY
        (drawTextWithWrapping [] (''aaa bbb'' @ [CHR 0x0A] @ ''ccc'') 50 700 20 charWidthFont 10))" .
qed

section \<open>Properties of the extraction pipeline\<close>

lemma set_insertSorted: "set (insertSorted cmp v ws) = insert v (set ws)"
  by (induction ws) auto

lemma set_sortWith: "set (sortWith cmp vs) = set vs"
proof -
  have "set (foldl (\<lambda>sorted v. insertSorted cmp v sorted) acc vs) = set acc \<union> set vs" for acc
    by (induction vs arbitrary: acc) (simp_all add: set_insertSorted)
  then show ?thesis
    by (simp add: sortWith_def)
qed

lemma groupStep_keep:
  "\<not> closesBlock st item \<Longrightarrow>
   groupStep st item =
     Inr (st\<lparr> currentBlock := currentBlock st @ [item],
              currentPageIndex := pageIndex item,
              lastY := y (position item),
              lastRight := x (position item) + width (position item) \<rparr>)"
  unfolding groupStep_def Let_def closesBlock_def
  by (simp only: if_False sum.case)

lemma groupStep_close:
  "closesBlock st item \<Longrightarrow> createBlockFromItems (currentBlock st) = Inr block \<Longrightarrow>
   groupStep st item =
     Inr (st\<lparr> groupedBlocks := groupedBlocks st @ [block],
              currentBlock := [item],
              currentPageIndex := pageIndex item,
              lastY := y (position item),
              lastRight := x (position item) + width (position item) \<rparr>)"
  unfolding groupStep_def Let_def closesBlock_def
  by (simp only: if_True sum.case) simp

lemma groupStep_items:
  "\<exists>st'. groupStep st item = Inr st' \<and> itemsOf st' = itemsOf st @ [item]"
proof (cases "closesBlock st item")
  case False
  show ?thesis
    unfolding groupStep_keep [OF False] by (simp add: itemsOf_def)
next
  case True
  then have "currentBlock st \<noteq> []"
    by (auto simp: closesBlock_def)
  from createBlockFromItems_items [OF this]
  obtain block where blk: "createBlockFromItems (currentBlock st) = Inr block"
    "items block = currentBlock st" by blast
  show ?thesis
    unfolding groupStep_close [OF True blk(1)] by (simp add: itemsOf_def blk(2))
qed

lemma groupLoop_items:
  "\<exists>st'. groupLoop st its = Inr st' \<and> itemsOf st' = itemsOf st @ its"
proof (induction its arbitrary: st)
  case Nil
  show ?case by simp
next
  case (Cons item its)
  from groupStep_items [of st item]
  obtain st1 where s1: "groupStep st item = Inr st1" "itemsOf st1 = itemsOf st @ [item]"
    by blast
  from Cons.IH [of st1]
  obtain st' where s2: "groupLoop st1 its = Inr st'" "itemsOf st' = itemsOf st1 @ its"
    by blast
  show ?case
    using s1 s2 by simp
qed

lemma groupTextIntoBlocks_items:
  "\<exists>bs. groupTextIntoBlocks its = Inr bs \<and>
        concat (map items bs) = sortWith compareItems its"
proof -
  let ?init = "\<lparr> groupedBlocks = [], currentBlock = [], currentPageIndex = -1,
                  lastY = -1, lastRight = -1 \<rparr>"
  from groupLoop_items [of ?init "sortWith compareItems its"]
  obtain st where st: "groupLoop ?init (sortWith compareItems its) = Inr st"
    "itemsOf st = sortWith compareItems its"
    by (auto simp: itemsOf_def)
  show ?thesis
  proof (cases "currentBlock st = []")
    case True
    with st show ?thesis
      by (simp add: groupTextIntoBlocks_def itemsOf_def)
  next
    case False
    from createBlockFromItems_items [OF False]
    obtain block where blk: "createBlockFromItems (currentBlock st) = Inr block"
      "items block = currentBlock st" by blast
    with st False show ?thesis
      by (simp add: groupTextIntoBlocks_def itemsOf_def)
  qed
qed

lemma extractPagesFrom_mem:
  "g \<in> set (fst (extractPagesFrom i pdfDoc (acc, info))) \<longleftrightarrow>
     g \<in> set acc \<or>
     (\<exists>k < length pdfDoc. \<exists>item \<in> set (snd (pdfDoc ! k)). g = convertItem (i + int k) item)"
proof (induction pdfDoc arbitrary: i acc info)
  case Nil
  show ?case by simp
next
  case (Cons pg rest)
  obtain viewport content where pg: "pg = (viewport, content)"
    by (cases pg)
  have "(\<exists>k < length (pg # rest). \<exists>item \<in> set (snd ((pg # rest) ! k)). g = convertItem (i + int k) item)
        \<longleftrightarrow> (\<exists>item \<in> set content. g = convertItem i item) \<or>
            (\<exists>k < length rest. \<exists>item \<in> set (snd (rest ! k)). g = convertItem (i + 1 + int k) item)"
    (is "?L \<longleftrightarrow> ?A \<or> ?B")
  proof
    assume ?L
    then obtain k item where k: "k < length (pg # rest)" "item \<in> set (snd ((pg # rest) ! k))"
      "g = convertItem (i + int k) item" by blast
    show "?A \<or> ?B"
    proof (cases k)
      case 0
      with k pg show ?thesis by auto
    next
      case (Suc j)
      with k have "j < length rest" "item \<in> set (snd (rest ! j))"
        "g = convertItem (i + 1 + int j) item"
        by (simp_all add: algebra_simps)
      then show ?thesis by blast
    qed
  next
    assume "?A \<or> ?B"
    then show ?L
    proof
      assume ?A
      then obtain item where "item \<in> set (snd ((pg # rest) ! 0))" "g = convertItem (i + int 0) item"
        using pg by auto
      then show ?L by (intro exI [of _ 0]) auto
    next
      assume ?B
      then obtain j item where j: "j < length rest" "item \<in> set (snd (rest ! j))"
        "g = convertItem (i + 1 + int j) item" by blast
      then have "Suc j < length (pg # rest)" "item \<in> set (snd ((pg # rest) ! Suc j))"
        "g = convertItem (i + int (Suc j)) item"
        by (simp_all add: algebra_simps)
      then show ?L by blast
    qed
  qed
  then show ?case
    unfolding pg using Cons.IH [of "i + 1" "acc @ map (convertItem i) content"]
    by auto
qed

lemmas extract_eval =
  extractTextWithPositions_def examplePdfDoc_def exampleItem_def exampleExtracted_def
  convertItem_def orElse_def transform3_def transform4_def transform5_def
  groupTextIntoBlocks_def sortWith_def groupStep_def createBlockFromItems_def Let_def

text \<open>
  C8, as the code has it. Every item of every block that extraction returns comes from a
  text item of a page of the document, with the index of that page, its string, and the
  translation of its transform as \<open>x\<close> and \<open>y\<close>. Its font size \<open>fs\<close> is the height
  that the extractor reports when there is one that is not 0, and otherwise
  \<^verbatim>\<open>transform[3]\<close> times the reported font size, or times 10. The stored height is
  \<open>fs\<close> times 1.2 in both cases. The stored width is the width that the extractor
  reports when there is one that is not 0, and otherwise the length of the string times
  \<open>fs\<close> times 0.6.
\<close>

theorem extractTextWithPositions_item_geometry:
  assumes ex: "extractTextWithPositions pdfDoc = Inr m"
    and bl: "block \<in> set (blocks m)"
    and it: "g \<in> set (items block)"
  shows "\<exists>k item fs.
           k < length pdfDoc \<and> item \<in> set (snd (pdfDoc ! k)) \<and>
           pageIndex g = int k \<and> text g = str item \<and>
           x (position g) = transform4 (transform item) \<and>
           y (position g) = transform5 (transform item) \<and>
           fontSize (position g) = Some fs \<and>
           (\<forall>h. itemHeight item = Some h \<and> h \<noteq> 0 \<longrightarrow> fs = h) \<and>
           (itemHeight item = None \<or> itemHeight item = Some 0 \<longrightarrow>
              fs = transform3 (transform item) *
                     (case itemFontSize item of
                        None \<Rightarrow> 10
                      | Some f \<Rightarrow> if f = 0 then 10 else f)) \<and>
           height (position g) = fs * 1.2 \<and>
           (\<forall>w. itemWidth item = Some w \<and> w \<noteq> 0 \<longrightarrow> width (position g) = w) \<and>
           (itemWidth item = None \<or> itemWidth item = Some 0 \<longrightarrow>
              width (position g) = real (length (str item)) * fs * 0.6)"
proof -
  obtain allTextItems pageInfo where ep:
    "extractPagesFrom 0 pdfDoc ([], []) = (allTextItems, pageInfo)"
    by (cases "extractPagesFrom 0 pdfDoc ([], [])")
  from groupTextIntoBlocks_items [of allTextItems]
  obtain bs where bs: "groupTextIntoBlocks allTextItems = Inr bs"
    "concat (map items bs) = sortWith compareItems allTextItems"
    by blast
  from ex ep bs(1) have "blocks m = bs"
    by (auto simp: extractTextWithPositions_def)
  with bl it have "g \<in> set (concat (map items bs))"
    by auto
  then have "g \<in> set allTextItems"
    by (simp only: bs(2) set_sortWith)
  then have "g \<in> set (fst (extractPagesFrom 0 pdfDoc ([], [])))"
    by (simp add: ep)
  then obtain k item where ki: "k < length pdfDoc" "item \<in> set (snd (pdfDoc ! k))"
    "g = convertItem (int k) item"
    unfolding extractPagesFrom_mem by auto
  let ?fs = "orElse (itemHeight item) (transform3 (transform item) * orElse (itemFontSize item) 10)"
  have "pageIndex g = int k \<and> text g = str item \<and>
        x (position g) = transform4 (transform item) \<and>
        y (position g) = transform5 (transform item) \<and>
        fontSize (position g) = Some ?fs \<and>
        height (position g) = ?fs * 1.2 \<and>
        width (position g) = orElse (itemWidth item) (real (length (str item)) * ?fs * 0.6)"
    by (simp add: ki(3) convertItem_def Let_def)
  moreover have "(\<forall>h. itemHeight item = Some h \<and> h \<noteq> 0 \<longrightarrow> ?fs = h) \<and>
        (itemHeight item = None \<or> itemHeight item = Some 0 \<longrightarrow>
           ?fs = transform3 (transform item) *
                   (case itemFontSize item of None \<Rightarrow> 10 | Some f \<Rightarrow> if f = 0 then 10 else f))"
    by (auto simp: orElse_def split: option.splits)
  moreover have "(\<forall>w. itemWidth item = Some w \<and> w \<noteq> 0 \<longrightarrow>
           orElse (itemWidth item) (real (length (str item)) * ?fs * 0.6) = w) \<and>
        (itemWidth item = None \<or> itemWidth item = Some 0 \<longrightarrow>
           orElse (itemWidth item) (real (length (str item)) * ?fs * 0.6)
             = real (length (str item)) * ?fs * 0.6)"
    by (auto simp: orElse_def)
  ultimately show ?thesis
    using ki(1,2) by (intro exI [of _ k] exI [of _ item] exI [of _ ?fs]) simp
qed

theorem extractTextWithPositions_item_geometry_witness:
  "\<exists>k item fs.
     k < length examplePdfDoc \<and> item \<in> set (snd (examplePdfDoc ! k)) \<and>
     pageIndex (convertItem 0 exampleItem) = int k \<and>
     text (convertItem 0 exampleItem) = str item \<and>
     x (position (convertItem 0 exampleItem)) = transform4 (transform item) \<and>
     y (position (convertItem 0 exampleItem)) = transform5 (transform item) \<and>
     fontSize (position (convertItem 0 exampleItem)) = Some fs \<and>
     (\<forall>h. itemHeight item = Some h \<and> h \<noteq> 0 \<longrightarrow> fs = h) \<and>
     (itemHeight item = None \<or> itemHeight item = Some 0 \<longrightarrow>
        fs = transform3 (transform item) *
               (case itemFontSize item of
                  None \<Rightarrow> 10
                | Some f \<Rightarrow> if f = 0 then 10 else f)) \<and>
     height (position (convertItem 0 exampleItem)) = fs * 1.2 \<and>
     (\<forall>w. itemWidth item = Some w \<and> w \<noteq> 0 \<longrightarrow> width (position (convertItem 0 exampleItem)) = w) \<and>
     (itemWidth item = None \<or> itemWidth item = Some 0 \<longrightarrow>
        width (position (convertItem 0 exampleItem)) = real (length (str item)) * fs * 0.6)"
proof -
  have ex: "extractTextWithPositions examplePdfDoc = Inr exampleExtracted"
    by (simp add: extract_eval)
  have bl: "hd (blocks exampleExtracted) \<in> set (blocks exampleExtracted)"
    by (simp add: exampleExtracted_def)
  have it: "convertItem 0 exampleItem \<in> set (items (hd (blocks exampleExtracted)))"
    by (simp add: exampleExtracted_def)
  show ?thesis
    by (rule extractTextWithPositions_item_geometry [OF ex bl it])
qed

text \<open>
  The claim C8 as it is worded fails for an item whose height the extractor reports: the
  stored height is that height times 1.2.
\<close>

theorem extractTextWithPositions_height_counterexample:
  "extractTextWithPositions examplePdfDoc = Inr exampleExtracted \<and>
   itemHeight (hd (snd (hd examplePdfDoc))) = Some 10 \<and>
   height (position (hd (items (hd (blocks exampleExtracted))))) = 12 \<and>
   height (position (hd (items (hd (blocks exampleExtracted))))) \<noteq> 10"
  by (simp add: extract_eval)

end
